theory Spec2Isabelle
  imports Complex_Main "HOL-Library.Multiset" "HOL-Library.Char_ord" "HOL-Library.List_Lexorder"
    "HOL-Library.Log_Nat"
begin

chapter \<open>The model\<close>

section \<open>Python values used by the legal knowledge-graph pipeline\<close>

text \<open>
  A Python \<open>str\<close> is modelled as a \<open>string\<close>: each \<open>char\<close> stands for one character of
  the Python string (code points below 256), so \<open>length\<close> is Python's \<open>len\<close>.
  A value that may be \<open>None\<close> is an \<open>option\<close>.
\<close>

datatype error = ZeroDivisionError | TypeError | ValueError | ServiceError

definition is_space :: "char \<Rightarrow> bool" where
  \<comment> \<open>\<open>str.isspace\<close> on one character: TAB..CR, FS..US, space, NEL, NBSP.\<close>
  "is_space c = (let n = (of_char c :: nat) in
     (9 \<le> n \<and> n \<le> 13) \<or> (28 \<le> n \<and> n \<le> 32) \<or> n = 133 \<or> n = 160)"

definition strip :: "string \<Rightarrow> string" where
  \<comment> \<open>\<open>str.strip()\<close>: leading and trailing whitespace removed.\<close>
  "strip s = rev (dropWhile is_space (rev (dropWhile is_space s)))"

definition slice_to :: "int \<Rightarrow> 'a list \<Rightarrow> 'a list" where
  \<comment> \<open>\<open>xs[:n]\<close>: a negative \<open>n\<close> counts from the end.\<close>
  "slice_to n xs = (if 0 \<le> n then take (nat n) xs else take (length xs - nat (- n)) xs)"

definition truthy :: "string option \<Rightarrow> bool" where
  \<comment> \<open>Python truth value of a \<open>str | None\<close>: \<open>None\<close> and \<open>""\<close> are false.\<close>
  "truthy v = (case v of None \<Rightarrow> False | Some t \<Rightarrow> t \<noteq> [])"

definition truthy_int :: "int option \<Rightarrow> bool" where
  \<comment> \<open>Python truth value of an \<open>int | None\<close>: \<open>None\<close> and \<open>0\<close> are false.\<close>
  "truthy_int v = (case v of None \<Rightarrow> False | Some n \<Rightarrow> n \<noteq> 0)"

definition py_or :: "string option \<Rightarrow> string option \<Rightarrow> string option" where
  \<comment> \<open>\<open>a or b\<close>: the first operand when it is true, else the second.\<close>
  "py_or a b = (if truthy a then a else b)"

definition or_empty :: "string option \<Rightarrow> string" where
  \<comment> \<open>\<open>a or ""\<close>\<close>
  "or_empty a = (case a of None \<Rightarrow> [] | Some t \<Rightarrow> t)"

fun str_nat :: "nat \<Rightarrow> string" where
  "str_nat n = (if n < 10 then [char_of (48 + n)]
                else str_nat (n div 10) @ [char_of (48 + n mod 10)])"

declare str_nat.simps [simp del]

definition str_int :: "int \<Rightarrow> string" where
  \<comment> \<open>\<open>str(n)\<close> and \<open>f"{n}"\<close> of a Python int: decimal digits, \<open>-\<close> in front when negative.\<close>
  "str_int n = (if n < 0 then CHR ''-'' # str_nat (nat (- n)) else str_nat (nat n))"

section \<open>Graph nodes read by the indexer and the retrieval engine\<close>

text \<open>
  The properties of an \<open>Act\<close> and a \<open>Section\<close> node that Indexing.py and
  Graph\_RAG\_new.py read with \<open>node.get(key)\<close>; a missing property reads as \<open>None\<close>.
\<close>

record act_node =
  a_title :: "string option"
  a_name :: "string option"
  a_year :: "int option"
  a_act_number :: "string option"

record section_node =
  s_citation :: "string option"
  s_Citation :: "string option"
  s_heading :: "string option"
  s_summary :: "string option"
  s_text :: "string option"
  s_section_id :: "string option"
  s_article_id :: "string option"
  s_sectionNo :: "string option"
  s_severity_score :: "int option"

record section_row =
  \<comment> \<open>one row of \<open>MATCH (a:Act)-[:HAS_SECTION]->(s:Section) RETURN id(s) AS sid, a, s\<close>\<close>
  r_sid :: int
  r_act :: act_node
  r_sec :: section_node
  r_cited :: "section_node list"

section \<open>Evidence previews: \<open>_trim\<close> (Graph\_RAG\_new.py)\<close>

definition trim :: "string option \<Rightarrow> int \<Rightarrow> string option" where
  "trim text max_chars =
     (case text of
        None \<Rightarrow> None
      | Some t \<Rightarrow>
          (let t' = strip t in
           if int (length t') \<le> max_chars then Some t'
           else Some (slice_to max_chars t' @ '' ...[TRUNCATED]...'')))"

section \<open>Evidence assembly: \<open>fetch_kg_context_for_sections\<close> (Graph\_RAG\_new.py)\<close>

definition formatted_citation :: "act_node \<Rightarrow> section_node \<Rightarrow> string option" where
  \<comment> \<open>the \<open>if / elif / else\<close> that builds \<open>formatted_citation\<close> for one row\<close>
  "formatted_citation act s =
     (let act_title = py_or (a_title act) (a_name act);
          act_year = a_year act;
          raw_citation = py_or (s_citation s) (s_Citation s)
      in if truthy raw_citation \<and> truthy act_title \<and> truthy_int act_year then
           Some (or_empty raw_citation @ '' of '' @ or_empty act_title @ '', ''
                 @ (case act_year of None \<Rightarrow> ''None'' | Some y \<Rightarrow> str_int y))
         else if truthy raw_citation \<and> truthy act_title then
           Some (or_empty raw_citation @ '' of '' @ or_empty act_title)
         else raw_citation)"

record cited_preview =
  cp_citation :: "string option"
  cp_heading :: "string option"
  cp_text :: "string option"

record kg_entry =
  e_section_neo4j_id :: int
  e_citation :: "string option"
  e_formatted_citation :: "string option"
  e_act_title :: "string option"
  e_act_year :: "int option"
  e_act_number :: "string option"
  e_section_heading :: "string option"
  e_section_summary :: "string option"
  e_section_text :: "string option"
  e_severity_score :: "int option"
  e_cited_sections :: "cited_preview list"

definition kg_entry_of :: "section_row \<Rightarrow> kg_entry" where
  \<comment> \<open>the loop body; the role, obligation and penalty lists are plain copies of node
      properties and are left out\<close>
  "kg_entry_of row =
     (let act = r_act row; s = r_sec row in
      \<lparr> e_section_neo4j_id = r_sid row,
        e_citation = py_or (s_citation s) (s_Citation s),
        e_formatted_citation = formatted_citation act s,
        e_act_title = py_or (a_title act) (a_name act),
        e_act_year = a_year act,
        e_act_number = a_act_number act,
        e_section_heading = s_heading s,
        e_section_summary = trim (s_summary s) 800,
        e_section_text = trim (s_text s) 1500,
        e_severity_score = s_severity_score s,
        e_cited_sections =
          map (\<lambda>cs. \<lparr> cp_citation = py_or (s_citation cs) (s_Citation cs),
                       cp_heading = s_heading cs,
                       cp_text = trim (s_text cs) 400 \<rparr>) (r_cited row) \<rparr>)"

definition fetch_kg_context_for_sections :: "(int list \<Rightarrow> section_row list) \<Rightarrow> int list \<Rightarrow> kg_entry list" where
  \<comment> \<open>\<open>query\<close> is the Cypher read of the rows for the given section ids\<close>
  "fetch_kg_context_for_sections query section_ids =
     (if section_ids = [] then [] else map kg_entry_of (query section_ids))"

section \<open>Vector index of sections: \<open>index_sections_into_chroma\<close> (Indexing.py)\<close>

record section_metadata =
  m_neo4j_id :: int
  m_act_title :: "string option"
  m_act_year :: "int option"
  m_act_number :: "string option"
  m_section_id :: "string option"
  m_sectionNo :: "string option"
  m_citation :: "string option"
  m_node_label :: string

definition section_body :: "act_node \<Rightarrow> section_node \<Rightarrow> string" where
  \<comment> \<open>the text that is embedded: \<open>f"{act_title}\n{heading}\n\n{summary}\n\n{text}".strip()\<close>\<close>
  "section_body act sec =
     (let act_title = or_empty (py_or (py_or (a_title act) (a_name act)) (Some []));
          heading = or_empty (py_or (s_heading sec) (Some []));
          summary = or_empty (py_or (s_summary sec) (Some []));
          text = or_empty (py_or (s_text sec) (Some []))
      in strip (act_title @ [CHR 0x0A] @ heading @ [CHR 0x0A, CHR 0x0A]
                @ summary @ [CHR 0x0A, CHR 0x0A] @ text))"

definition section_metadata_of :: "section_row \<Rightarrow> section_metadata" where
  "section_metadata_of rec =
     (let act = r_act rec; sec = r_sec rec in
      \<lparr> m_neo4j_id = r_sid rec,
        m_act_title = py_or (a_title act) (a_name act),
        m_act_year = a_year act,
        m_act_number = a_act_number act,
        m_section_id = py_or (s_section_id sec) (s_article_id sec),
        m_sectionNo = s_sectionNo sec,
        m_citation = s_citation sec,
        m_node_label = ''Section'' \<rparr>)"

type_synonym index_entry = "string \<times> string \<times> section_metadata"

type_synonym collection = "string \<rightharpoonup> string \<times> section_metadata"

definition section_entry :: "section_row \<Rightarrow> index_entry" where
  \<comment> \<open>what one pass of the loop appends to \<open>ids\<close>, \<open>texts\<close> and \<open>metadatas\<close>\<close>
  "section_entry rec =
     (str_int (r_sid rec), section_body (r_act rec) (r_sec rec), section_metadata_of rec)"

definition upsert :: "index_entry list \<Rightarrow> collection \<Rightarrow> collection" where
  \<comment> \<open>\<open>collection.upsert\<close>: the document and metadata stored under an id are replaced\<close>
  "upsert batch coll = fold (\<lambda>(i, d, m) c. c(i \<mapsto> (d, m))) batch coll"

function batches :: "nat \<Rightarrow> 'a list \<Rightarrow> 'a list list" where
  \<comment> \<open>\<open>xs[i:i+n] for i in range(0, len(xs), n)\<close>, for a positive step\<close>
  "batches n xs = (if n = 0 \<or> xs = [] then [] else take n xs # batches n (drop n xs))"
  by pat_completeness auto
termination
  by (relation "measure (\<lambda>(n, xs). length xs)") auto

declare batches.simps [simp del]

definition index_sections_into_chroma ::
  "section_row list \<Rightarrow> int \<Rightarrow> collection \<Rightarrow> error + collection" where
  \<comment> \<open>\<open>range(0, len(ids), batch_size)\<close> raises for a zero step and is empty for a
      negative one\<close>
  "index_sections_into_chroma records batch_size coll =
     (let entries = map section_entry records in
      if batch_size = 0 then Inl ValueError
      else if batch_size < 0 then Inr coll
      else Inr (fold upsert (batches (nat batch_size) entries) coll))"

section \<open>Double-precision arithmetic\<close>

text \<open>
  A Python \<open>float\<close> is an IEEE 754 double. A finite double is modelled by the rational it
  denotes, and an operation by the exact result rounded to the nearest double, ties to
  the even significand, as the hardware does. \<open>fl\<close> is that rounding: 53 significant
  bits, with the fixed spacing \<open>2^-1074\<close> below the normal range. The exponent has no
  upper limit here: doubles overflow from \<open>2^1024\<close>, a size that a position in a list
  does not reach.
\<close>

type_synonym double = rat

definition pow2 :: "int \<Rightarrow> rat" where
  "pow2 e = (if 0 \<le> e then 2 ^ nat e else 1 / 2 ^ nat (- e))"

definition round_half_even :: "rat \<Rightarrow> int" where
  "round_half_even y =
     (let m = \<lfloor>y\<rfloor>; d = y - of_int m
      in if d < 1 / 2 then m else if 1 / 2 < d then m + 1 else if even m then m else m + 1)"

definition float_exponent :: "rat \<Rightarrow> int" where
  \<comment> \<open>the \<open>e\<close> with \<open>2^e \<le> |x| < 2^(e+1)\<close>, for \<open>x\<close> other than 0\<close>
  "float_exponent x =
     (let (p, q) = quotient_of \<bar>x\<bar>; d = bitlen p - bitlen q
      in if pow2 d \<le> \<bar>x\<bar> then d else d - 1)"

definition fl :: "rat \<Rightarrow> double" where
  "fl x = (if x = 0 then 0
           else (let e = max (float_exponent x - 52) (- 1074)
                 in of_int (round_half_even (x / pow2 e)) * pow2 e))"

definition float_of_int :: "int \<Rightarrow> double" where
  \<comment> \<open>the conversion of a Python int that an arithmetic operation with a float makes\<close>
  "float_of_int n = fl (of_int n)"

definition fdiv :: "double \<Rightarrow> double \<Rightarrow> double" where
  \<comment> \<open>\<open>a / b\<close> on floats, for \<open>b\<close> other than 0\<close>
  "fdiv a b = fl (a / b)"

definition fadd :: "double \<Rightarrow> double \<Rightarrow> double" where
  \<comment> \<open>\<open>a + b\<close> on floats; adding \<open>0.0\<close> to a double gives that double\<close>
  "fadd a b = (if a = 0 then b else if b = 0 then a else fl (a + b))"

section \<open>Reciprocal rank fusion: \<open>rrf_fuse\<close> (Search.py)\<close>

text \<open>
  A search result is a dict of which the fusion reads only the key \<open>sid\<close>. The
  \<open>defaultdict(float)\<close> of scores is an association list in insertion order, which is the
  order \<open>scores.items()\<close> yields. The scores are doubles.
\<close>

record hit =
  sid :: int

type_synonym scores = "(int \<times> double) list"

fun add_score :: "scores \<Rightarrow> int \<Rightarrow> double \<Rightarrow> scores" where
  \<comment> \<open>\<open>scores[sid] += v\<close>; a missing key starts from \<open>0.0\<close> and is appended\<close>
  "add_score [] s v = [(s, fadd 0 v)]"
| "add_score ((k, w) # rest) s v =
     (if k = s then (k, fadd w v) # rest else (k, w) # add_score rest s v)"

fun accumulate :: "int \<Rightarrow> nat \<Rightarrow> hit list \<Rightarrow> scores \<Rightarrow> error + scores" where
  \<comment> \<open>\<open>for rank, r in enumerate(results): scores[r["sid"]] += 1.0 / (k_rrf + rank + 1)\<close>,
      from position \<open>rank\<close> on\<close>
  "accumulate k_rrf rank [] sc = Inr sc"
| "accumulate k_rrf rank (r # rs) sc =
     (if k_rrf + int rank + 1 = 0 then Inl ZeroDivisionError
      else accumulate k_rrf (Suc rank) rs
             (add_score sc (sid r) (fdiv 1 (float_of_int (k_rrf + int rank + 1)))))"

definition rrf_scores :: "hit list \<Rightarrow> hit list \<Rightarrow> int \<Rightarrow> error + scores" where
  \<comment> \<open>the dict \<open>scores\<close> after both loops\<close>
  "rrf_scores vector_results lexical_results k_rrf =
     (case accumulate k_rrf 0 vector_results [] of
        Inl e \<Rightarrow> Inl e
      | Inr sc \<Rightarrow> accumulate k_rrf 0 lexical_results sc)"

definition sorted_desc :: "scores \<Rightarrow> scores" where
  \<comment> \<open>\<open>sorted(scores.items(), key=lambda x: x[1], reverse=True)\<close>: a stable sort, entries
      with equal scores keep their order\<close>
  "sorted_desc sc = sort_key (\<lambda>(s, v). - v) sc"

definition rrf_fuse :: "hit list \<Rightarrow> hit list \<Rightarrow> int \<Rightarrow> int \<Rightarrow> error + int list" where
  "rrf_fuse vector_results lexical_results k_rrf top_k =
     (case rrf_scores vector_results lexical_results k_rrf of
        Inl e \<Rightarrow> Inl e
      | Inr sc \<Rightarrow> Inr (map fst (slice_to top_k (sorted_desc sc))))"

subsection \<open>The fusion as the specification words it\<close>

fun fromkeys :: "'a list \<Rightarrow> 'a list" where
  \<comment> \<open>\<open>list(dict.fromkeys(xs))\<close>: each element once, in the order first seen\<close>
  "fromkeys [] = []"
| "fromkeys (x # xs) = x # filter (\<lambda>y. y \<noteq> x) (fromkeys xs)"

definition reciprocal :: "int \<Rightarrow> nat \<Rightarrow> double" where
  \<comment> \<open>the double \<open>1.0 / (k + rank + 1)\<close>\<close>
  "reciprocal k rank = fdiv 1 (float_of_int (k + int rank + 1))"

definition rank_sum :: "int \<Rightarrow> nat \<Rightarrow> hit list \<Rightarrow> int \<Rightarrow> double \<Rightarrow> double" where
  \<comment> \<open>the double sum of \<open>acc\<close> and, in list order, the reciprocals of the positions of a
      list that hold the id; positions are counted from \<open>n\<close>\<close>
  "rank_sum k n xs x acc =
     foldl fadd acc (map (\<lambda>(rank, r). reciprocal k rank)
                         (filter (\<lambda>(rank, r). sid r = x) (enumerate n xs)))"

definition rrf_score :: "int \<Rightarrow> hit list \<Rightarrow> hit list \<Rightarrow> int \<Rightarrow> double" where
  \<comment> \<open>the vector list is added first, then the lexical list\<close>
  "rrf_score k vector_results lexical_results x =
     rank_sum k 0 lexical_results x (rank_sum k 0 vector_results x 0)"

definition score_in :: "scores \<Rightarrow> int \<Rightarrow> double" where
  \<comment> \<open>\<open>scores[x]\<close> read from the defaultdict: a missing key reads as \<open>0.0\<close>\<close>
  "score_in sc x = (case map_of sc x of None \<Rightarrow> 0 | Some v \<Rightarrow> v)"

section \<open>The retrieval cascade: \<open>Graph_RAG_new_tool\<close> (Graph\_RAG\_new.py)\<close>

text \<open>
  The tool reads the graph store, the vector index and the language model. Each of these
  reads is a field of \<open>services\<close>, a function from the arguments the tool passes to the
  rows it gets back; \<open>extract_article_id\<close> is the regular-expression search of the query.
  The tool returns, with its answer, the list of the reads it made, in order.
\<close>

datatype call =
    VectorSearch | LexicalSearch
  | ExactLocatorQuery | SmartSemanticSearch | ActExpansionQuery | ActTitleQuery
  | KgContextFetch | LlmInvoke

record sem_hit =
  \<comment> \<open>a result of \<open>smart_semantic_search\<close>: \<open>"type"\<close> is \<open>"section"\<close> or \<open>"act"\<close>\<close>
  sh_type :: string
  sh_id :: int

record services =
  extract_article_id :: "string \<Rightarrow> string option"
  vector_search_sections :: "string \<Rightarrow> string option \<Rightarrow> nat \<Rightarrow> hit list"
  fulltext_search_sections :: "string \<Rightarrow> nat \<Rightarrow> hit list"
  exact_locator_query :: "string \<Rightarrow> int list"
  smart_semantic_search :: "string \<Rightarrow> nat \<Rightarrow> sem_hit list"
  act_sections_query :: "int list \<Rightarrow> int list"
  act_title_query :: "string \<Rightarrow> int list"
  kg_rows :: "int list \<Rightarrow> section_row list"
  llm_answer :: "kg_entry list \<Rightarrow> string \<Rightarrow> string"

definition no_evidence :: string where
  "no_evidence = ''I could not find any relevant sections in the knowledge graph for this query. ''
     @ ''Please try rephrasing it, or mention an Act name or section number explicitly.''"

definition primary_fusion :: "services \<Rightarrow> string \<Rightarrow> error + int list" where
  \<comment> \<open>steps 1 to 4: locator, vector search, lexical search, fusion\<close>
  "primary_fusion sv query =
     (let explicit_article_id = extract_article_id sv query;
          vec_results = vector_search_sections sv query explicit_article_id 50;
          lex_results = fulltext_search_sections sv query 50
      in rrf_fuse vec_results lex_results 60 10)"

definition fallback1 :: "services \<Rightarrow> string \<Rightarrow> call list \<times> int list" where
  \<comment> \<open>FALLBACK 1: sections whose \<open>section_id\<close> equals the locator\<close>
  "fallback1 sv article_id = ([ExactLocatorQuery], exact_locator_query sv article_id)"

definition fallback2 :: "services \<Rightarrow> string \<Rightarrow> call list \<times> int list" where
  \<comment> \<open>FALLBACK 2 up to \<open>sec_ids_from_sem\<close>: section hits, then the sections of act hits\<close>
  "fallback2 sv query =
     (let sem_results = smart_semantic_search sv query 50;
          sec_ids_from_sem = map sh_id (filter (\<lambda>r. sh_type r = ''section'') sem_results);
          act_ids = map sh_id (filter (\<lambda>r. sh_type r = ''act'') sem_results)
      in if act_ids \<noteq> [] then
           ([SmartSemanticSearch, ActExpansionQuery],
            sec_ids_from_sem @ act_sections_query sv act_ids)
         else ([SmartSemanticSearch], sec_ids_from_sem))"

definition fallback3 :: "services \<Rightarrow> string \<Rightarrow> call list \<times> int list" where
  \<comment> \<open>FALLBACK 3: sections of acts whose title contains the query\<close>
  "fallback3 sv query = ([ActTitleQuery], act_title_query sv query)"

definition cascade :: "services \<Rightarrow> string \<Rightarrow> int list \<Rightarrow> call list \<times> int list" where
  \<comment> \<open>the three \<open>if\<close> blocks after the fusion; the pair is the reads made so far and
      \<open>fused_section_ids\<close>\<close>
  "cascade sv query fused =
     (let explicit_article_id = extract_article_id sv query;
          st0 = ([VectorSearch, LexicalSearch], fused);
          st1 = (if snd st0 = [] \<and> truthy explicit_article_id then
                   (fst st0 @ fst (fallback1 sv (or_empty explicit_article_id)),
                    snd (fallback1 sv (or_empty explicit_article_id)))
                 else st0);
          st2 = (if snd st1 = [] then
                   (fst st1 @ fst (fallback2 sv query),
                    if snd (fallback2 sv query) \<noteq> []
                    then take 10 (fromkeys (snd (fallback2 sv query))) else snd st1)
                 else st1);
          st3 = (if snd st2 = [] then
                   (fst st2 @ fst (fallback3 sv query), snd (fallback3 sv query))
                 else st2)
      in st3)"

definition Graph_RAG_new_tool :: "services \<Rightarrow> string \<Rightarrow> error + call list \<times> string" where
  "Graph_RAG_new_tool sv query =
     (case primary_fusion sv query of
        Inl e \<Rightarrow> Inl e
      | Inr fused \<Rightarrow>
          (let (calls, fused_section_ids) = cascade sv query fused in
           if fused_section_ids = [] then Inr (calls, no_evidence)
           else Inr (calls @ [KgContextFetch, LlmInvoke],
                     llm_answer sv (fetch_kg_context_for_sections (kg_rows sv) fused_section_ids)
                       query)))"

section \<open>Graph enrichment passes (06\_enrich\_graph.py)\<close>

text \<open>
  The part of the graph store that the co-occurrence and severity passes read and write.
  A node is its internal id. The rows a \<open>MATCH\<close> of a relationship yields are a list
  of (start, end) pairs, in the order the store yields them. A property that is not set
  reads as \<open>null\<close>, here \<open>None\<close>.
\<close>

type_synonym node_id = nat

datatype pval = PStr string | PInt int | PBool bool

record penalty_node =
  p_imprisonment :: "pval option"
  p_fine_amount :: "pval option"

record graph =
  g_penalty :: "node_id \<Rightarrow> penalty_node"
  g_prescribes_penalty :: "(node_id \<times> node_id) list"
  g_severity_score :: "node_id \<rightharpoonup> int"
  g_mentions_role :: "(node_id \<times> node_id) list"
  g_co_occurs :: "node_id \<times> node_id \<rightharpoonup> int"

subsection \<open>Step 5: \<open>add_severity_scores\<close>\<close>

definition present :: "pval option \<Rightarrow> bool" where
  \<comment> \<open>\<open>v IS NOT NULL AND v <> ""\<close>; a value that is not a string differs from \<open>""\<close>\<close>
  "present v = (v \<noteq> None \<and> v \<noteq> Some (PStr []))"

definition penalty_points :: "penalty_node \<Rightarrow> int" where
  \<comment> \<open>the sum of the two \<open>CASE\<close> expressions for one penalty\<close>
  "penalty_points p =
     (if present (p_imprisonment p) then 2 else 0) + (if present (p_fine_amount p) then 1 else 0)"

definition pens_of :: "graph \<Rightarrow> node_id \<Rightarrow> node_id list" where
  \<comment> \<open>\<open>WITH s, collect(p) AS pens\<close>\<close>
  "pens_of g s = map snd (filter (\<lambda>(s', p). s' = s) (g_prescribes_penalty g))"

definition severity_of :: "graph \<Rightarrow> node_id \<Rightarrow> int" where
  \<comment> \<open>\<open>baseScore + numPens\<close> for the group of section \<open>s\<close>\<close>
  "severity_of g s =
     sum_list (map (\<lambda>p. penalty_points (g_penalty g p)) (pens_of g s))
     + int (length (pens_of g s))"

definition add_severity_scores :: "graph \<Rightarrow> graph" where
  \<comment> \<open>one \<open>SET s.severity_score = baseScore + numPens\<close> for each section matched\<close>
  "add_severity_scores g =
     g\<lparr>g_severity_score :=
         fold (\<lambda>s m. m(s \<mapsto> severity_of g s))
              (fromkeys (map fst (g_prescribes_penalty g))) (g_severity_score g)\<rparr>"

subsection \<open>Step 4: \<open>add_role_cooccurrence\<close>\<close>

definition roles_of :: "graph \<Rightarrow> node_id \<Rightarrow> node_id list" where
  \<comment> \<open>\<open>WITH s, collect(DISTINCT r) AS roles\<close>\<close>
  "roles_of g s = fromkeys (map snd (filter (\<lambda>(s', r). s' = s) (g_mentions_role g)))"

definition role_pairs :: "node_id list \<Rightarrow> (node_id \<times> node_id) list" where
  \<comment> \<open>\<open>UNWIND roles AS r1 UNWIND roles AS r2 WITH r1, r2 WHERE id(r1) < id(r2)\<close>\<close>
  "role_pairs roles = filter (\<lambda>(r1, r2). r1 < r2) (List.product roles roles)"

definition merge_co_occurs ::
  "(node_id \<times> node_id \<rightharpoonup> int) \<Rightarrow> node_id \<times> node_id \<Rightarrow> (node_id \<times> node_id \<rightharpoonup> int)" where
  \<comment> \<open>\<open>MERGE (r1)-[c:CO_OCCURS_WITH]->(r2) ON CREATE SET c.count = 1
      ON MATCH SET c.count = c.count + 1\<close>\<close>
  "merge_co_occurs m p = m(p \<mapsto> (case m p of None \<Rightarrow> 1 | Some c \<Rightarrow> c + 1))"

definition add_role_cooccurrence :: "graph \<Rightarrow> graph" where
  "add_role_cooccurrence g =
     g\<lparr>g_co_occurs :=
         fold (\<lambda>s m. fold (\<lambda>p m. merge_co_occurs m p) (role_pairs (roles_of g s)) m)
              (fromkeys (map fst (g_mentions_role g))) (g_co_occurs g)\<rparr>"

definition count_in :: "(node_id \<times> node_id \<rightharpoonup> int) \<Rightarrow> node_id \<times> node_id \<Rightarrow> int" where
  \<comment> \<open>the count between two roles: 0 when there is no \<open>CO_OCCURS_WITH\<close> edge\<close>
  "count_in m p = (case m p of None \<Rightarrow> 0 | Some c \<Rightarrow> c)"

section \<open>Semantic enrichment (04\_enrich\_llm\_hybrid.py)\<close>

text \<open>
  A value parsed by \<open>json.loads\<close>. An object is the list of its keys and values, each key
  once. Numbers are integers: floats are not modelled.
\<close>

datatype json =
    JNull | JBool bool | JNum int | JStr string
  | JArr "json list" | JObj "(string \<times> json) list"

fun truthy_json :: "json \<Rightarrow> bool" where
  "truthy_json JNull = False"
| "truthy_json (JBool b) = b"
| "truthy_json (JNum n) = (n \<noteq> 0)"
| "truthy_json (JStr s) = (s \<noteq> [])"
| "truthy_json (JArr xs) = (xs \<noteq> [])"
| "truthy_json (JObj kvs) = (kvs \<noteq> [])"

definition or_list :: "json option \<Rightarrow> json" where
  \<comment> \<open>\<open>d.get(key) or []\<close>\<close>
  "or_list v = (case v of None \<Rightarrow> JArr [] | Some x \<Rightarrow> if truthy_json x then x else JArr [])"

fun py_iter :: "json \<Rightarrow> error + json list" where
  \<comment> \<open>\<open>for x in v\<close>: a list yields its elements, a string its characters, a dict its
      keys; a number or a boolean is not iterable\<close>
  "py_iter (JArr xs) = Inr xs"
| "py_iter (JStr s) = Inr (map (\<lambda>c. JStr [c]) s)"
| "py_iter (JObj kvs) = Inr (map (\<lambda>kv. JStr (fst kv)) kvs)"
| "py_iter JNull = Inl TypeError"
| "py_iter (JBool b) = Inl TypeError"
| "py_iter (JNum n) = Inl TypeError"

fun is_dict :: "json \<Rightarrow> bool" where
  "is_dict (JObj kvs) = True"
| "is_dict _ = False"

fun join :: "string \<Rightarrow> string list \<Rightarrow> string" where
  \<comment> \<open>\<open>sep.join(xs)\<close>\<close>
  "join sep [] = []"
| "join sep [x] = x"
| "join sep (x # y # ys) = x @ sep @ join sep (y # ys)"

definition MODEL :: string where
  "MODEL = ''deepseek/deepseek-chat''"

subsection \<open>\<open>call_llm_batch\<close>\<close>

record batch_entry =
  be_section_index :: int
  be_sentences :: "string list"

record llm_result =
  lr_roles :: json
  lr_obligations :: json
  lr_powers :: json
  lr_penalties :: json
  lr_rights :: json

text \<open>
  The completion service and \<open>json.loads\<close> are parameters. The service maps the sections
  block that is put into the prompt template to its reply: an exception, or the
  \<open>content\<close> of the first message. \<open>loads\<close> gives \<open>None\<close> where \<open>json.loads\<close> raises.
  The returned dict is a map; its keys are the \<open>section_index\<close> values, and since
  Python has \<open>True == 1\<close> and \<open>False == 0\<close> a boolean is the key of its number.
\<close>

datatype content = CNone | CStr string | COther

datatype reply = Raised | Replied content

definition numbered :: "string list \<Rightarrow> string" where
  \<comment> \<open>\<open>"\n".join(f"{i+1}. {s}" for i, s in enumerate(sent_list))\<close>\<close>
  "numbered sent_list =
     join [CHR 0x0A] (map (\<lambda>(i, s). str_int (int i + 1) @ ''. '' @ s) (enumerate 0 sent_list))"

definition sections_block :: "batch_entry list \<Rightarrow> string" where
  "sections_block batch_inputs =
     join [CHR 0x0A, CHR 0x0A]
       (map (\<lambda>entry. ''SECTION '' @ str_int (be_section_index entry) @ '':'' @ [CHR 0x0A]
                       @ numbered (be_sentences entry)) batch_inputs)"

fun dict_key :: "json \<Rightarrow> json option" where
  \<comment> \<open>the key under which a value is stored in a dict; a list or a dict is unhashable\<close>
  "dict_key (JBool b) = Some (JNum (if b then 1 else 0))"
| "dict_key (JArr xs) = None"
| "dict_key (JObj kvs) = None"
| "dict_key v = Some v"

definition item_index :: "json \<Rightarrow> json option" where
  \<comment> \<open>\<open>item.get("section_index")\<close> of an item the loop does not skip\<close>
  "item_index item =
     (case item of
        JObj kvs \<Rightarrow> (case map_of kvs ''section_index'' of
                       None \<Rightarrow> None
                     | Some idx \<Rightarrow> if idx = JNull then None else Some idx)
      | _ \<Rightarrow> None)"

definition item_result :: "json \<Rightarrow> llm_result" where
  "item_result item =
     (case item of
        JObj kvs \<Rightarrow>
          \<lparr> lr_roles = or_list (map_of kvs ''roles''),
            lr_obligations = or_list (map_of kvs ''obligations''),
            lr_powers = or_list (map_of kvs ''powers''),
            lr_penalties = or_list (map_of kvs ''penalties''),
            lr_rights = or_list (map_of kvs ''rights'') \<rparr>
      | _ \<Rightarrow> \<lparr> lr_roles = JArr [], lr_obligations = JArr [], lr_powers = JArr [],
               lr_penalties = JArr [], lr_rights = JArr [] \<rparr>)"

fun collect_items :: "json list \<Rightarrow> (json \<rightharpoonup> llm_result) \<Rightarrow> error + (json \<rightharpoonup> llm_result)" where
  \<comment> \<open>\<open>for item in parsed: ... out[idx] = {...}\<close>\<close>
  "collect_items [] out = Inr out"
| "collect_items (item # rest) out =
     (case item_index item of
        None \<Rightarrow> collect_items rest out
      | Some idx \<Rightarrow>
          (case dict_key idx of
             None \<Rightarrow> Inl TypeError
           | Some k \<Rightarrow> collect_items rest (out(k \<mapsto> item_result item))))"

definition as_list :: "json \<Rightarrow> json list" where
  \<comment> \<open>\<open>if not isinstance(parsed, list): parsed = [parsed]\<close>\<close>
  "as_list parsed = (case parsed of JArr xs \<Rightarrow> xs | v \<Rightarrow> [v])"

definition llm_batch_body ::
  "(string \<Rightarrow> reply) \<Rightarrow> (string \<Rightarrow> json option) \<Rightarrow> batch_entry list
     \<Rightarrow> error + (json \<rightharpoonup> llm_result)" where
  \<comment> \<open>the \<open>try\<close> block; \<open>Inl\<close> is an exception raised in it\<close>
  "llm_batch_body llm loads batch_inputs =
     (case llm (sections_block batch_inputs) of
        Raised \<Rightarrow> Inl ServiceError
      | Replied CNone \<Rightarrow> Inr Map.empty
      | Replied COther \<Rightarrow> Inr Map.empty
      | Replied (CStr t) \<Rightarrow>
          if t = [] then Inr Map.empty
          else (case loads t of
                  None \<Rightarrow> Inr Map.empty
                | Some parsed \<Rightarrow> collect_items (as_list parsed) Map.empty))"

definition call_llm_batch ::
  "(string \<Rightarrow> reply) \<Rightarrow> (string \<Rightarrow> json option) \<Rightarrow> batch_entry list
     \<Rightarrow> (json \<rightharpoonup> llm_result)" where
  \<comment> \<open>\<open>except Exception: return {}\<close> catches what the block raises\<close>
  "call_llm_batch llm loads batch_inputs =
     (if batch_inputs = [] then Map.empty
      else (case llm_batch_body llm loads batch_inputs of
              Inl e \<Rightarrow> Map.empty
            | Inr out \<Rightarrow> out))"

definition item_entries :: "json list \<Rightarrow> (json \<times> llm_result) list" where
  \<comment> \<open>the (key, result) pairs of the items that carry a hashable \<open>section_index\<close>, in
      the order of the items\<close>
  "item_entries items =
     concat (map (\<lambda>item. case item_index item of
                            None \<Rightarrow> []
                          | Some idx \<Rightarrow> (case dict_key idx of
                                           None \<Rightarrow> []
                                         | Some k \<Rightarrow> [(k, item_result item)])) items)"

definition unhashable_index :: "json \<Rightarrow> bool" where
  \<comment> \<open>the item carries a list or a dict as \<open>section_index\<close>\<close>
  "unhashable_index item =
     (case item_index item of None \<Rightarrow> False | Some idx \<Rightarrow> dict_key idx = None)"

subsection \<open>\<open>merge_semantics\<close>\<close>

record processing_meta =
  pm_rule_based_flags :: "string list"
  pm_llm_used :: "bool option"
  pm_llm_model :: "string option"

record section_dict =
  \<comment> \<open>the entries of a section dict that the merge reads and writes\<close>
  sec_roles :: "string list option"
  sec_obligations :: "json list option"
  sec_powers :: "json list option"
  sec_penalties :: "json list option"
  sec_rights :: "json list option"
  sec_processing_meta :: "processing_meta option"

definition or_nil :: "'a list option \<Rightarrow> 'a list" where
  \<comment> \<open>\<open>sec.get(key) or []\<close>\<close>
  "or_nil v = (case v of None \<Rightarrow> [] | Some xs \<Rightarrow> xs)"

fun new_role :: "json \<Rightarrow> string list" where
  \<comment> \<open>\<open>if isinstance(r, str): existing_roles.add(r.strip())\<close>\<close>
  "new_role (JStr r) = [strip r]"
| "new_role _ = []"

definition merged_roles :: "string list \<Rightarrow> json list \<Rightarrow> string list" where
  \<comment> \<open>\<open>sorted(existing_roles)\<close> after the loop: the set, in ascending order\<close>
  "merged_roles existing rs = sort (remdups (existing @ concat (map new_role rs)))"

definition appended :: "json list option \<Rightarrow> json \<Rightarrow> error + json list" where
  \<comment> \<open>\<open>existing + [v for v in new_vals if isinstance(v, dict)]\<close>\<close>
  "appended existing new_vals =
     (case py_iter (or_list (Some new_vals)) of
        Inl e \<Rightarrow> Inl e
      | Inr vs \<Rightarrow> Inr (or_nil existing @ filter is_dict vs))"

definition merge_semantics :: "section_dict \<Rightarrow> llm_result \<Rightarrow> error + section_dict" where
  "merge_semantics sec res =
     (case py_iter (or_list (Some (lr_roles res))) of
        Inl e \<Rightarrow> Inl e
      | Inr rs \<Rightarrow>
     (case appended (sec_obligations sec) (lr_obligations res) of
        Inl e \<Rightarrow> Inl e
      | Inr obligations \<Rightarrow>
     (case appended (sec_powers sec) (lr_powers res) of
        Inl e \<Rightarrow> Inl e
      | Inr powers \<Rightarrow>
     (case appended (sec_penalties sec) (lr_penalties res) of
        Inl e \<Rightarrow> Inl e
      | Inr penalties \<Rightarrow>
     (case appended (sec_rights sec) (lr_rights res) of
        Inl e \<Rightarrow> Inl e
      | Inr rights \<Rightarrow>
          (let meta = (case sec_processing_meta sec of
                         None \<Rightarrow> \<lparr> pm_rule_based_flags = [], pm_llm_used = None,
                                   pm_llm_model = None \<rparr>
                       | Some m \<Rightarrow> m);
               used = (truthy_json (lr_roles res) \<or> truthy_json (lr_obligations res)
                       \<or> truthy_json (lr_powers res) \<or> truthy_json (lr_penalties res)
                       \<or> truthy_json (lr_rights res))
           in Inr \<lparr> sec_roles = Some (merged_roles (or_nil (sec_roles sec)) rs),
                    sec_obligations = Some obligations,
                    sec_powers = Some powers,
                    sec_penalties = Some penalties,
                    sec_rights = Some rights,
                    sec_processing_meta =
                      Some (meta\<lparr> pm_llm_used := Some used,
                                  pm_llm_model := (if used then Some MODEL else None) \<rparr>) \<rparr>))))))"

section \<open>Document segmenter (02\_parse\_structure.py)\<close>

subsection \<open>The header patterns\<close>

text \<open>
  The three regular expressions, matched at the start of the text as \<open>re.match\<close> does.
  \<open>\s\<close>, \<open>\d\<close> and \<open>\w\<close> are Python's classes on the characters below 256. A greedy
  repetition takes the longest run: giving characters back never turns a failed match
  into a match for these patterns. \<open>.\<close> does not match a newline, and \<open>$\<close> matches at
  the end of the text or before a newline that ends it.
\<close>

definition is_digit :: "char \<Rightarrow> bool" where
  "is_digit c = (let n = (of_char c :: nat) in 48 \<le> n \<and> n \<le> 57)"

definition is_letter :: "char \<Rightarrow> bool" where
  \<comment> \<open>\<open>[A-Za-z]\<close>\<close>
  "is_letter c = (let n = (of_char c :: nat) in (65 \<le> n \<and> n \<le> 90) \<or> (97 \<le> n \<and> n \<le> 122))"

definition is_roman :: "char \<Rightarrow> bool" where
  \<comment> \<open>\<open>[IVXLC]\<close>\<close>
  "is_roman c = (c \<in> set ''IVXLC'')"

definition is_word :: "char \<Rightarrow> bool" where
  \<comment> \<open>\<open>\w\<close>: alphanumeric or underscore\<close>
  "is_word c = (let n = (of_char c :: nat) in
     (48 \<le> n \<and> n \<le> 57) \<or> (65 \<le> n \<and> n \<le> 90) \<or> n = 95 \<or> (97 \<le> n \<and> n \<le> 122)
     \<or> n = 170 \<or> n = 178 \<or> n = 179 \<or> n = 181 \<or> n = 185 \<or> n = 186
     \<or> (188 \<le> n \<and> n \<le> 190) \<or> (192 \<le> n \<and> n \<le> 214) \<or> (216 \<le> n \<and> n \<le> 246)
     \<or> 248 \<le> n)"

definition strip_prefix :: "string \<Rightarrow> string \<Rightarrow> string option" where
  "strip_prefix p t = (if take (length p) t = p then Some (drop (length p) t) else None)"

definition detect_chapter :: "string \<Rightarrow> string option" where
  \<comment> \<open>\<open>^CHAPTER\s+([IVXLC]+)\b\<close>\<close>
  "detect_chapter t =
     (case strip_prefix ''CHAPTER'' t of
        None \<Rightarrow> None
      | Some r \<Rightarrow>
          (let ws = takeWhile is_space r;
               r1 = dropWhile is_space r;
               rom = takeWhile is_roman r1;
               r2 = dropWhile is_roman r1
           in if ws \<noteq> [] \<and> rom \<noteq> [] \<and> (case r2 of [] \<Rightarrow> True | c # _ \<Rightarrow> \<not> is_word c)
              then Some rom else None))"

definition match_num :: "string \<Rightarrow> (string \<times> string) option" where
  \<comment> \<open>\<open>(\d+[A-Za-z]?)\<close>: the group and the text after it\<close>
  "match_num t =
     (let d = takeWhile is_digit t; r = dropWhile is_digit t
      in if d = [] then None
         else (case r of
                 [] \<Rightarrow> Some (d, [])
               | c # r' \<Rightarrow> if is_letter c then Some (d @ [c], r') else Some (d, r)))"

definition rest_ok :: "string \<Rightarrow> bool" where
  \<comment> \<open>\<open>(.*)$\<close> matches: no newline except one that ends the text\<close>
  "rest_ok r = (CHR 0x0A \<notin> set (butlast r))"

definition section_pattern1 :: "string \<Rightarrow> (string \<times> string) option" where
  \<comment> \<open>\<open>^Section\s+(\d+[A-Za-z]?)\.?\s*(.*)$\<close>, with the heading stripped\<close>
  "section_pattern1 t =
     (case strip_prefix ''Section'' t of
        None \<Rightarrow> None
      | Some r \<Rightarrow>
          if takeWhile is_space r = [] then None
          else (case match_num (dropWhile is_space r) of
                  None \<Rightarrow> None
                | Some (num, r2) \<Rightarrow>
                    (let r3 = (case r2 of [] \<Rightarrow> [] | c # r' \<Rightarrow> if c = CHR ''.'' then r' else r2);
                         rest = dropWhile is_space r3
                     in if rest_ok rest then Some (num, strip rest) else None)))"

definition section_pattern2 :: "string \<Rightarrow> (string \<times> string) option" where
  \<comment> \<open>\<open>^(\d+[A-Za-z]?)\.\s+(.*)$\<close>, with the heading stripped\<close>
  "section_pattern2 t =
     (case match_num t of
        None \<Rightarrow> None
      | Some (num, r2) \<Rightarrow>
          (case r2 of
             [] \<Rightarrow> None
           | c # r3 \<Rightarrow>
               if c = CHR ''.'' \<and> takeWhile is_space r3 \<noteq> [] \<and> rest_ok (dropWhile is_space r3)
               then Some (num, strip (dropWhile is_space r3)) else None))"

definition detect_section_header :: "string \<Rightarrow> (string \<times> string) option" where
  \<comment> \<open>the first pattern that matches wins; \<open>None\<close> is the pair \<open>(None, None)\<close>\<close>
  "detect_section_header t =
     (case section_pattern1 t of Some m \<Rightarrow> Some m | None \<Rightarrow> section_pattern2 t)"

subsection \<open>\<open>process_act\<close>\<close>

record line_rec =
  \<comment> \<open>one record of the line stream\<close>
  l_page :: int
  l_line_index :: int
  l_text :: string

record act_row =
  \<comment> \<open>the manifest row, with \<open>year\<close> and \<open>seq\<close> already integers\<close>
  row_act_id :: string
  row_year :: int
  row_seq :: int

record section_record =
  sr_act_id :: string
  sr_act_year :: int
  sr_act_seq :: int
  sr_section_id :: string
  sr_unit_type :: string
  sr_chapter :: "string option"
  sr_section :: string
  sr_citation :: string
  sr_heading :: "string option"
  sr_text :: string
  sr_pages :: "int list"
  sr_raw_lines :: "line_rec list"

record seg_state =
  current_chapter :: "string option"
  current_section :: "string option"
  current_heading :: string
  buffer :: "line_rec list"
  pages :: "int set"
  raw_lines :: "line_rec list"

definition initial_state :: seg_state where
  "initial_state = \<lparr> current_chapter = None, current_section = None, current_heading = [],
                      buffer = [], pages = {}, raw_lines = [] \<rparr>"

definition flush_section :: "act_row \<Rightarrow> seg_state \<Rightarrow> section_record list \<times> seg_state" where
  \<comment> \<open>the records written (none or one) and the state after the call\<close>
  "flush_section row st =
     (case current_section st of
        None \<Rightarrow> ([], st)
      | Some sec \<Rightarrow>
          (let text = join [CHR 0x0A] (map l_text (buffer st)) in
           if strip text = [] then ([], st)
           else ([\<lparr> sr_act_id = row_act_id row,
                     sr_act_year = row_year row,
                     sr_act_seq = row_seq row,
                     sr_section_id = row_act_id row @ ''-sec-'' @ sec,
                     sr_unit_type = ''section'',
                     sr_chapter = current_chapter st,
                     sr_section = sec,
                     sr_citation = ''Section '' @ sec,
                     sr_heading = (if current_heading st = [] then None
                                   else Some (current_heading st)),
                     sr_text = text,
                     sr_pages = sorted_list_of_set (pages st),
                     sr_raw_lines = raw_lines st \<rparr>],
                 st\<lparr> buffer := [], pages := {}, raw_lines := [] \<rparr>)))"

definition step :: "act_row \<Rightarrow> line_rec \<Rightarrow> seg_state \<Rightarrow> section_record list \<times> seg_state" where
  \<comment> \<open>the body of the loop for one line\<close>
  "step row rec st =
     (case detect_chapter (l_text rec) of
        Some chap \<Rightarrow> ([], st\<lparr> current_chapter := Some chap \<rparr>)
      | None \<Rightarrow>
          (case detect_section_header (l_text rec) of
             Some (sec_num, heading) \<Rightarrow>
               (let (out, st') = flush_section row st in
                (out, st'\<lparr> current_section := Some sec_num, current_heading := heading,
                           buffer := [], pages := {}, raw_lines := [] \<rparr>))
           | None \<Rightarrow>
               if current_section st = None then ([], st)
               else ([], st\<lparr> buffer := buffer st @ [rec],
                              pages := insert (l_page rec) (pages st),
                              raw_lines := raw_lines st
                                @ [\<lparr> l_page = l_page rec, l_line_index = l_line_index rec,
                                      l_text = l_text rec \<rparr>] \<rparr>)))"

fun process_from :: "act_row \<Rightarrow> seg_state \<Rightarrow> line_rec list \<Rightarrow> section_record list" where
  \<comment> \<open>the loop from a given state, then the final flush\<close>
  "process_from row st [] = fst (flush_section row st)"
| "process_from row st (rec # recs) =
     (let (out, st') = step row rec st in out @ process_from row st' recs)"

definition process_act :: "act_row \<Rightarrow> line_rec list \<Rightarrow> section_record list" where
  \<comment> \<open>the records written to the sections file, in order\<close>
  "process_act row lines = process_from row initial_state lines"

definition is_header_line :: "line_rec \<Rightarrow> bool" where
  \<comment> \<open>the loop takes the line as a section header\<close>
  "is_header_line rec =
     (detect_chapter (l_text rec) = None \<and> detect_section_header (l_text rec) \<noteq> None)"

definition chapter_after :: "string option \<Rightarrow> line_rec list \<Rightarrow> string option" where
  \<comment> \<open>\<open>current_chapter\<close> after a run of lines: the last chapter header of the run\<close>
  "chapter_after chap lines =
     fold (\<lambda>rec c. case detect_chapter (l_text rec) of None \<Rightarrow> c | Some ch \<Rightarrow> Some ch)
          lines chap"

section \<open>Example inputs\<close>

definition madras_act :: act_node where
  "madras_act = \<lparr> a_title = Some ''THE MADRAS CITY LAND REVENUE ACT'', a_name = None,
                  a_year = Some 1851, a_act_number = None \<rparr>"

definition section_10 :: section_node where
  "section_10 = \<lparr> s_citation = Some ''Section 10'', s_Citation = None, s_heading = None,
                  s_summary = None, s_text = None, s_section_id = None,
                  s_article_id = None, s_sectionNo = Some ''10'', s_severity_score = None \<rparr>"

definition ipc_act :: act_node where
  "ipc_act = \<lparr> a_title = Some ''THE SARAIS ACT'', a_name = None,
               a_year = Some 1867, a_act_number = Some ''22'' \<rparr>"

definition sec_112 :: section_node where
  "sec_112 = \<lparr> s_citation = Some ''Section 112'', s_Citation = None,
               s_heading = Some ''Register'', s_summary = None,
               s_text = Some ''The keeper of a sarai shall keep a register.'',
               s_section_id = Some ''112'', s_article_id = None,
               s_sectionNo = Some ''112'', s_severity_score = None \<rparr>"

definition sec_113 :: section_node where
  "sec_113 = \<lparr> s_citation = Some ''Section 113'', s_Citation = None,
               s_heading = Some ''Register'', s_summary = None,
               s_text = Some ''The keeper of a sarai shall keep a register.'',
               s_section_id = Some ''113'', s_article_id = None,
               s_sectionNo = Some ''113'', s_severity_score = None \<rparr>"

definition hit_services :: services where
  \<comment> \<open>a store in which the query names a locator and the vector search finds section 5\<close>
  "hit_services =
     \<lparr> extract_article_id = (\<lambda>q. Some ''10''),
       vector_search_sections = (\<lambda>q a n. [\<lparr>sid = 5\<rparr>]),
       fulltext_search_sections = (\<lambda>q n. []),
       exact_locator_query = (\<lambda>a. [7]),
       smart_semantic_search = (\<lambda>q n. [\<lparr>sh_type = ''section'', sh_id = 8\<rparr>]),
       act_sections_query = (\<lambda>a. []),
       act_title_query = (\<lambda>q. [9]),
       kg_rows = (\<lambda>ids. []),
       llm_answer = (\<lambda>es q. ''answer'') \<rparr>"

definition title_services :: services where
  \<comment> \<open>a store in which only the act-title match finds a section\<close>
  "title_services =
     \<lparr> extract_article_id = (\<lambda>q. Some ''10''),
       vector_search_sections = (\<lambda>q a n. []),
       fulltext_search_sections = (\<lambda>q n. []),
       exact_locator_query = (\<lambda>a. []),
       smart_semantic_search = (\<lambda>q n. []),
       act_sections_query = (\<lambda>a. []),
       act_title_query = (\<lambda>q. [9]),
       kg_rows = (\<lambda>ids. []),
       llm_answer = (\<lambda>es q. ''answer'') \<rparr>"

definition penal_graph :: graph where
  \<comment> \<open>section 3 prescribes penalty 10 (imprisonment and fine) and penalty 11 (fine only)\<close>
  "penal_graph =
     \<lparr> g_penalty = (\<lambda>p. if p = 10 then \<lparr> p_imprisonment = Some (PStr ''six months''),
                                          p_fine_amount = Some (PStr ''500'') \<rparr>
                         else \<lparr> p_imprisonment = Some (PStr ''''),
                                p_fine_amount = Some (PStr ''100'') \<rparr>),
       g_prescribes_penalty = [(3, 10), (3, 11)],
       g_severity_score = Map.empty,
       g_mentions_role = [],
       g_co_occurs = Map.empty \<rparr>"

definition two_role_graph :: graph where
  \<comment> \<open>section 7 mentions roles 3 and 4; no \<open>CO_OCCURS_WITH\<close> edge yet\<close>
  "two_role_graph =
     \<lparr> g_penalty = (\<lambda>p. \<lparr> p_imprisonment = None, p_fine_amount = None \<rparr>),
       g_prescribes_penalty = [],
       g_severity_score = Map.empty,
       g_mentions_role = [(7, 3), (7, 4)],
       g_co_occurs = Map.empty \<rparr>"

definition dm_section :: section_dict where
  \<comment> \<open>a section whose role list holds one name\<close>
  "dm_section = \<lparr> sec_roles = Some [''District Magistrate''], sec_obligations = Some [],
      sec_powers = Some [], sec_penalties = Some [], sec_rights = Some [],
      sec_processing_meta = None \<rparr>"

definition dm_result_lower :: llm_result where
  \<comment> \<open>the same name in lower case\<close>
  "dm_result_lower = \<lparr> lr_roles = JArr [JStr ''district magistrate''], lr_obligations = JArr [],
      lr_powers = JArr [], lr_penalties = JArr [], lr_rights = JArr [] \<rparr>"

definition dm_result_padded :: llm_result where
  \<comment> \<open>the same name with blanks around it\<close>
  "dm_result_padded = \<lparr> lr_roles = JArr [JStr '' District Magistrate ''], lr_obligations = JArr [],
      lr_powers = JArr [], lr_penalties = JArr [], lr_rights = JArr [] \<rparr>"

definition two_batch :: "batch_entry list" where
  \<comment> \<open>a batch of two sections, with indices 0 and 1\<close>
  "two_batch =
     [\<lparr> be_section_index = 0, be_sentences = [''The keeper of a sarai shall keep a register.''] \<rparr>,
      \<lparr> be_section_index = 1, be_sentences = [''Whoever fails shall be liable to fine.''] \<rparr>]"

definition object_text :: string where
  \<comment> \<open>a reply that is one JSON object, not an array\<close>
  \<open>object_text = ''{"section_index": 0, "roles": ["Magistrate"]}''\<close>

definition object_llm :: "string \<Rightarrow> reply" where
  "object_llm block = Replied (CStr object_text)"

definition object_loads :: "string \<Rightarrow> json option" where
  \<comment> \<open>\<open>json.loads\<close> on \<open>object_text\<close>\<close>
  "object_loads t =
     (if t = object_text
      then Some (JObj [(''section_index'', JNum 0), (''roles'', JArr [JStr ''Magistrate''])])
      else None)"

definition array_text :: string where
  \<comment> \<open>a reply that is an array of one object and one string\<close>
  \<open>array_text = ''[{"section_index": 1, "roles": ["keeper of a sarai"]}, "no result"]''\<close>

definition array_llm :: "string \<Rightarrow> reply" where
  "array_llm block = Replied (CStr array_text)"

definition array_loads :: "string \<Rightarrow> json option" where
  \<comment> \<open>\<open>json.loads\<close> on \<open>array_text\<close>\<close>
  "array_loads t =
     (if t = array_text
      then Some (JArr [JObj [(''section_index'', JNum 1),
                             (''roles'', JArr [JStr ''keeper of a sarai''])],
                       JStr ''no result''])
      else None)"

definition sarais_row :: act_row where
  "sarais_row = \<lparr> row_act_id = ''1867_22'', row_year = 1867, row_seq = 22 \<rparr>"

definition chapter_line :: line_rec where
  "chapter_line = \<lparr> l_page = 2, l_line_index = 0, l_text = ''CHAPTER I'' \<rparr>"

definition header_line :: line_rec where
  "header_line = \<lparr> l_page = 2, l_line_index = 1, l_text = ''1. Short title'' \<rparr>"

definition body_line :: line_rec where
  "body_line = \<lparr> l_page = 2, l_line_index = 2,
                 l_text = ''This Act may be called the Sarais Act.'' \<rparr>"

definition short_title_record :: "string option \<Rightarrow> section_record" where
  \<comment> \<open>the record of section 1 of the example, with the given chapter\<close>
  "short_title_record chap =
     \<lparr> sr_act_id = ''1867_22'', sr_act_year = 1867, sr_act_seq = 22,
       sr_section_id = ''1867_22-sec-1'', sr_unit_type = ''section'',
       sr_chapter = chap, sr_section = ''1'', sr_citation = ''Section 1'',
       sr_heading = Some ''Short title'',
       sr_text = ''This Act may be called the Sarais Act.'',
       sr_pages = [2], sr_raw_lines = [body_line] \<rparr>"

definition tie_vec :: "hit list" where
  \<comment> \<open>39 vector results: id 2 at rank 27, id 1 at rank 38\<close>
  "tie_vec = map (\<lambda>i. \<lparr>sid = i\<rparr>) ([100..126] @ [2] @ [128..137] @ [1])"

definition tie_lex :: "hit list" where
  \<comment> \<open>12 lexical results: id 1 at rank 5, id 2 at rank 11\<close>
  "tie_lex = map (\<lambda>i. \<lparr>sid = i\<rparr>) ([200..204] @ [1] @ [206..210] @ [2])"

chapter \<open>Verified properties\<close>

section \<open>Properties of \<open>_trim\<close>\<close>

lemma trim_None_iff: "trim text m = None \<longleftrightarrow> text = None"
  by (simp add: trim_def Let_def split: option.splits)

lemma trim_short: "int (length (strip t)) \<le> m \<Longrightarrow> trim (Some t) m = Some (strip t)"
  by (simp add: trim_def)

lemma trim_long:
  "0 \<le> m \<Longrightarrow> m < int (length (strip t)) \<Longrightarrow>
   trim (Some t) m = Some (take (nat m) (strip t) @ '' ...[TRUNCATED]...'')"
  by (simp add: trim_def slice_to_def)

lemma trim_length: "0 \<le> m \<Longrightarrow> trim text m = Some r \<Longrightarrow> int (length r) \<le> m + 18"
  by (auto simp: trim_def slice_to_def Let_def split: option.splits if_splits)

text \<open>
  Claim C10. \<open>_trim\<close> returns \<open>None\<close> exactly when its input is \<open>None\<close>. For a string
  whose stripped length is at most the bound it returns the stripped string unchanged;
  otherwise it returns the first \<open>max_chars\<close> characters of the stripped string followed
  by the 18-character suffix \<open>" ...[TRUNCATED]..."\<close>. Hence every output that is not
  \<open>None\<close> has length at most \<open>max_chars + 18\<close>. The bound is a character count
  (the callers pass 800, 1500 and 400), so it is taken non-negative where the slice
  \<open>text[:max_chars]\<close> is read as "the first \<open>max_chars\<close> characters".
\<close>

theorem trim_spec:
  assumes "0 \<le> max_chars"
  shows "(trim text max_chars = None \<longleftrightarrow> text = None)
       \<and> (\<forall>t. text = Some t \<and> int (length (strip t)) \<le> max_chars
              \<longrightarrow> trim text max_chars = Some (strip t))
       \<and> (\<forall>t. text = Some t \<and> max_chars < int (length (strip t))
              \<longrightarrow> trim text max_chars
                    = Some (take (nat max_chars) (strip t) @ '' ...[TRUNCATED]...''))
       \<and> (\<forall>r. trim text max_chars = Some r \<longrightarrow> int (length r) \<le> max_chars + 18)"
  using assms trim_None_iff [of "text" max_chars] trim_short trim_long trim_length
  by blast

theorem trim_spec_witness:
  "trim (Some ''  the keeper of a sarai  '') 10 = Some ''the keeper ...[TRUNCATED]...''
   \<and> trim (Some '' sarai '') 10 = Some ''sarai''
   \<and> trim None 10 = None"
proof -
  have s1: "strip ''  the keeper of a sarai  '' = ''the keeper of a sarai''"
    by (simp add: strip_def is_space_def)
  have s2: "strip '' sarai '' = ''sarai''"
    by (simp add: strip_def is_space_def)
  have h: "(0::int) \<le> 10" by simp
  note spec = trim_spec [OF h]
  have a: "trim (Some ''  the keeper of a sarai  '') 10
             = Some (take (nat 10) (strip ''  the keeper of a sarai  '') @ '' ...[TRUNCATED]...'')"
    using spec [of "Some ''  the keeper of a sarai  ''"] s1 by simp
  have b: "trim (Some '' sarai '') 10 = Some (strip '' sarai '')"
    using spec [of "Some '' sarai ''"] s2 by simp
  have c: "trim None 10 = None"
    using spec [of None] by simp
  show ?thesis using a b c s1 s2 by simp
qed

section \<open>Properties of the formatted citation\<close>

lemma formatted_citation_full:
  assumes "py_or (s_citation s) (s_Citation s) = Some c" and "c \<noteq> []"
    and "py_or (a_title act) (a_name act) = Some t" and "t \<noteq> []"
    and "a_year act = Some y" and "y \<noteq> 0"
  shows "formatted_citation act s = Some (c @ '' of '' @ t @ '', '' @ str_int y)"
  using assms by (simp add: formatted_citation_def truthy_def truthy_int_def or_empty_def)

lemma formatted_citation_no_year:
  assumes "py_or (s_citation s) (s_Citation s) = Some c" and "c \<noteq> []"
    and "py_or (a_title act) (a_name act) = Some t" and "t \<noteq> []"
    and "a_year act = None \<or> a_year act = Some 0"
  shows "formatted_citation act s = Some (c @ '' of '' @ t)"
  using assms by (auto simp: formatted_citation_def truthy_def truthy_int_def or_empty_def)

lemma formatted_citation_raw:
  assumes "\<not> (truthy (py_or (s_citation s) (s_Citation s))
              \<and> truthy (py_or (a_title act) (a_name act)))"
  shows "formatted_citation act s = py_or (s_citation s) (s_Citation s)"
  using assms by (auto simp: formatted_citation_def Let_def)

text \<open>
  Claim C9. In evidence assembly a field is present when the value read from the node is
  true in Python: a string that is neither \<open>None\<close> nor empty, a year that is neither
  \<open>None\<close> nor 0 (the test is \<open>if raw_citation and act_title and act_year\<close>). The
  citation read is \<open>citation\<close>, else \<open>Citation\<close>; the act title is \<open>title\<close>, else
  \<open>name\<close>. When citation, title and year are all present the formatted citation is
  \<open>"<citation> of <act title>, <act year>"\<close>; when the year is absent and the other two
  are present it is \<open>"<citation> of <act title>"\<close>; otherwise it is the raw citation.
\<close>

theorem formatted_citation_spec:
  "(\<forall>c t y. py_or (s_citation s) (s_Citation s) = Some c \<and> c \<noteq> []
            \<and> py_or (a_title act) (a_name act) = Some t \<and> t \<noteq> []
            \<and> a_year act = Some y \<and> y \<noteq> 0
      \<longrightarrow> formatted_citation act s = Some (c @ '' of '' @ t @ '', '' @ str_int y))
   \<and> (\<forall>c t. py_or (s_citation s) (s_Citation s) = Some c \<and> c \<noteq> []
            \<and> py_or (a_title act) (a_name act) = Some t \<and> t \<noteq> []
            \<and> (a_year act = None \<or> a_year act = Some 0)
      \<longrightarrow> formatted_citation act s = Some (c @ '' of '' @ t))
   \<and> (\<not> (truthy (py_or (s_citation s) (s_Citation s))
            \<and> truthy (py_or (a_title act) (a_name act)))
      \<longrightarrow> formatted_citation act s = py_or (s_citation s) (s_Citation s))"
  using formatted_citation_full [of s _ act] formatted_citation_no_year [of s _ act]
    formatted_citation_raw [of s act]
  by blast

theorem formatted_citation_spec_witness:
  "formatted_citation madras_act section_10
     = Some ''Section 10 of THE MADRAS CITY LAND REVENUE ACT, 1851''
   \<and> formatted_citation (madras_act\<lparr>a_year := None\<rparr>) section_10
     = Some ''Section 10 of THE MADRAS CITY LAND REVENUE ACT''
   \<and> formatted_citation (madras_act\<lparr>a_title := None\<rparr>) section_10 = Some ''Section 10''"
proof -
  have y: "str_int 1851 = ''1851''" by code_simp
  have c: "py_or (s_citation section_10) (s_Citation section_10) = Some ''Section 10''"
    by (simp add: section_10_def py_or_def truthy_def)
  have t: "py_or (a_title madras_act) (a_name madras_act)
             = Some ''THE MADRAS CITY LAND REVENUE ACT''"
    by (simp add: madras_act_def py_or_def truthy_def)
  have t2: "py_or (a_title (madras_act\<lparr>a_year := None\<rparr>)) (a_name (madras_act\<lparr>a_year := None\<rparr>))
             = Some ''THE MADRAS CITY LAND REVENUE ACT''"
    by (simp add: madras_act_def py_or_def truthy_def)
  have t3: "\<not> truthy (py_or (a_title (madras_act\<lparr>a_title := None\<rparr>))
                             (a_name (madras_act\<lparr>a_title := None\<rparr>)))"
    by (simp add: madras_act_def py_or_def truthy_def)
  have a: "formatted_citation madras_act section_10
             = Some (''Section 10'' @ '' of '' @ ''THE MADRAS CITY LAND REVENUE ACT'' @ '', ''
                     @ str_int 1851)"
    using formatted_citation_spec [of section_10 madras_act] c t
    by (simp add: madras_act_def)
  have b: "formatted_citation (madras_act\<lparr>a_year := None\<rparr>) section_10
             = Some (''Section 10'' @ '' of '' @ ''THE MADRAS CITY LAND REVENUE ACT'')"
    using formatted_citation_spec [of section_10 "madras_act\<lparr>a_year := None\<rparr>"] c t2
    by simp
  have d: "formatted_citation (madras_act\<lparr>a_title := None\<rparr>) section_10
             = py_or (s_citation section_10) (s_Citation section_10)"
    using formatted_citation_spec [of section_10 "madras_act\<lparr>a_title := None\<rparr>"] t3
    by simp
  show ?thesis using a b d c y by simp
qed

section \<open>The embedded section text\<close>

lemma fold_upsert_batches: "0 < n \<Longrightarrow> fold upsert (batches n es) c = upsert es c"
proof (induction n es arbitrary: c rule: batches.induct)
  case (1 n xs)
  show ?case
  proof (cases "xs = []")
    case True
    then show ?thesis by (simp add: batches.simps upsert_def)
  next
    case False
    have "fold upsert (batches n xs) c
            = fold upsert (batches n (drop n xs)) (upsert (take n xs) c)"
      using False "1.prems" by (subst batches.simps) simp
    also have "\<dots> = upsert (drop n xs) (upsert (take n xs) c)"
      using "1.IH" False "1.prems" by simp
    also have "\<dots> = upsert xs c"
      using fold_append [of "\<lambda>(i, d, m) c. c(i \<mapsto> (d, m))" "take n xs" "drop n xs"]
      by (simp add: upsert_def)
    finally show ?thesis .
  qed
qed

lemma upsert_map_of: "upsert es c = c ++ map_of (rev es)"
proof (induction es arbitrary: c)
  case Nil
  then show ?case by (simp add: upsert_def)
next
  case (Cons e es)
  obtain i d m where e: "e = (i, d, m)" by (cases e)
  have "upsert (e # es) c = upsert es (c(i \<mapsto> (d, m)))"
    by (simp add: upsert_def e)
  also have "\<dots> = c(i \<mapsto> (d, m)) ++ map_of (rev es)"
    by (rule Cons.IH)
  also have "\<dots> = c ++ map_of (rev (e # es))"
    by (simp add: e map_add_upd_left fun_eq_iff map_add_def split: option.splits)
  finally show ?case .
qed

lemma index_sections_collection:
  "0 < bs \<Longrightarrow> index_sections_into_chroma recs bs coll
                = Inr (coll ++ map_of (rev (map section_entry recs)))"
  by (simp add: index_sections_into_chroma_def fold_upsert_batches upsert_map_of)

lemma section_body_cong:
  assumes "py_or (a_title a1) (a_name a1) = py_or (a_title a2) (a_name a2)"
    and "s_heading s1 = s_heading s2" and "s_summary s1 = s_summary s2"
    and "s_text s1 = s_text s2"
  shows "section_body a1 s1 = section_body a2 s2"
  using assms by (simp add: section_body_def)

text \<open>
  Claim C7. The document text embedded for a section is \<open>section_body\<close>. Two section
  rows that agree on the act title (\<open>title\<close>, else \<open>name\<close>), heading, summary and body
  text get the same embedded text, whatever their node ids, section ids, section numbers
  and citation strings are; those are kept in the metadata record. The document that the
  indexer stores in the collection for a row is this text.
\<close>

theorem section_body_ignores_identifiers:
  assumes "py_or (a_title (r_act r1)) (a_name (r_act r1))
             = py_or (a_title (r_act r2)) (a_name (r_act r2))"
    and "s_heading (r_sec r1) = s_heading (r_sec r2)"
    and "s_summary (r_sec r1) = s_summary (r_sec r2)"
    and "s_text (r_sec r1) = s_text (r_sec r2)"
    and "0 < batch_size"
  shows "fst (snd (section_entry r1)) = fst (snd (section_entry r2))
       \<and> index_sections_into_chroma [r1] batch_size Map.empty
           = Inr [str_int (r_sid r1) \<mapsto> (section_body (r_act r1) (r_sec r1), section_metadata_of r1)]
       \<and> index_sections_into_chroma [r2] batch_size Map.empty
           = Inr [str_int (r_sid r2) \<mapsto> (section_body (r_act r1) (r_sec r1), section_metadata_of r2)]
       \<and> m_neo4j_id (section_metadata_of r1) = r_sid r1
       \<and> m_section_id (section_metadata_of r1)
           = py_or (s_section_id (r_sec r1)) (s_article_id (r_sec r1))
       \<and> m_sectionNo (section_metadata_of r1) = s_sectionNo (r_sec r1)
       \<and> m_citation (section_metadata_of r1) = s_citation (r_sec r1)"
proof -
  have b: "section_body (r_act r1) (r_sec r1) = section_body (r_act r2) (r_sec r2)"
    using assms(1-4) by (rule section_body_cong)
  have i1: "index_sections_into_chroma [r1] batch_size Map.empty
              = Inr [str_int (r_sid r1) \<mapsto> (section_body (r_act r1) (r_sec r1), section_metadata_of r1)]"
    using assms(5) by (simp add: index_sections_collection section_entry_def)
  have i2: "index_sections_into_chroma [r2] batch_size Map.empty
              = Inr [str_int (r_sid r2) \<mapsto> (section_body (r_act r1) (r_sec r1), section_metadata_of r2)]"
    using assms(5) b by (simp add: index_sections_collection section_entry_def)
  have m: "m_neo4j_id (section_metadata_of r1) = r_sid r1
       \<and> m_section_id (section_metadata_of r1)
           = py_or (s_section_id (r_sec r1)) (s_article_id (r_sec r1))
       \<and> m_sectionNo (section_metadata_of r1) = s_sectionNo (r_sec r1)
       \<and> m_citation (section_metadata_of r1) = s_citation (r_sec r1)"
    by (simp add: section_metadata_of_def Let_def)
  have e: "fst (snd (section_entry r1)) = fst (snd (section_entry r2))"
    using b by (simp add: section_entry_def)
  show ?thesis
    using e i1 i2 m by blast
qed

theorem section_body_ignores_identifiers_witness:
  "section_body ipc_act sec_112 = section_body ipc_act sec_113
   \<and> section_body ipc_act sec_112
       = ''THE SARAIS ACT'' @ [CHR 0x0A] @ ''Register'' @ [CHR 0x0A, CHR 0x0A, CHR 0x0A, CHR 0x0A]
         @ ''The keeper of a sarai shall keep a register.''
   \<and> m_sectionNo (section_metadata_of \<lparr>r_sid = 7, r_act = ipc_act, r_sec = sec_112, r_cited = []\<rparr>)
       = Some ''112''
   \<and> m_sectionNo (section_metadata_of \<lparr>r_sid = 8, r_act = ipc_act, r_sec = sec_113, r_cited = []\<rparr>)
       = Some ''113''"
proof -
  have h: "(0::int) < 30" by simp
  have "fst (snd (section_entry \<lparr>r_sid = 7, r_act = ipc_act, r_sec = sec_112, r_cited = []\<rparr>))
          = fst (snd (section_entry \<lparr>r_sid = 8, r_act = ipc_act, r_sec = sec_113, r_cited = []\<rparr>))"
    using section_body_ignores_identifiers
      [of "\<lparr>r_sid = 7, r_act = ipc_act, r_sec = sec_112, r_cited = []\<rparr>"
          "\<lparr>r_sid = 8, r_act = ipc_act, r_sec = sec_113, r_cited = []\<rparr>" 30, OF _ _ _ _ h]
    by (simp add: sec_112_def sec_113_def)
  then have eq: "section_body ipc_act sec_112 = section_body ipc_act sec_113"
    by (simp add: section_entry_def)
  have val: "section_body ipc_act sec_112
       = ''THE SARAIS ACT'' @ [CHR 0x0A] @ ''Register'' @ [CHR 0x0A, CHR 0x0A, CHR 0x0A, CHR 0x0A]
         @ ''The keeper of a sarai shall keep a register.''"
    by (simp add: section_body_def ipc_act_def sec_112_def py_or_def truthy_def or_empty_def
        strip_def is_space_def)
  show ?thesis
    using eq val by (simp add: section_metadata_of_def Let_def sec_112_def sec_113_def)
qed

section \<open>Reciprocal rank fusion\<close>

lemma fadd_zero: "fadd 0 v = v"
  by (simp add: fadd_def)

lemma fadd_commute: "fadd a b = fadd b a"
  by (simp add: fadd_def add.commute)

lemma score_in_add_score:
  "score_in (add_score sc s v) y = (if y = s then fadd (score_in sc y) v else score_in sc y)"
  by (induction sc s v rule: add_score.induct) (auto simp: score_in_def)

lemma keys_add_score:
  "map fst (add_score sc s v) = (if s \<in> set (map fst sc) then map fst sc else map fst sc @ [s])"
  by (induction sc s v rule: add_score.induct) auto

lemma rank_sum_Nil: "rank_sum k n [] x acc = acc"
  by (simp add: rank_sum_def)

lemma rank_sum_Cons:
  "rank_sum k n (r # rs) x acc
     = rank_sum k (Suc n) rs x (if sid r = x then fadd acc (reciprocal k n) else acc)"
  by (simp add: rank_sum_def)

lemma fromkeys_append:
  "fromkeys (a @ b) = fromkeys a @ filter (\<lambda>y. y \<notin> set a) (fromkeys b)"
  by (induction a) (auto simp: conj_commute intro: filter_cong)

lemma set_fromkeys: "set (fromkeys xs) = set xs"
  by (induction xs) auto

lemma distinct_fromkeys: "distinct (fromkeys xs)"
  by (induction xs) (auto simp: set_fromkeys)

lemma accumulate_ok:
  assumes "0 \<le> k"
  shows "\<exists>sc'. accumulate k n xs sc = Inr sc'
           \<and> (\<forall>y. score_in sc' y = rank_sum k n xs y (score_in sc y))
           \<and> map fst sc' = map fst sc @ filter (\<lambda>y. y \<notin> set (map fst sc)) (fromkeys (map sid xs))"
proof (induction xs arbitrary: n sc)
  case Nil
  then show ?case by (simp add: rank_sum_Nil)
next
  case (Cons r rs)
  let ?sc1 = "add_score sc (sid r) (reciprocal k n)"
  from Cons.IH [of "Suc n" ?sc1] obtain sc' where
    a: "accumulate k (Suc n) rs ?sc1 = Inr sc'"
    and s: "\<forall>y. score_in sc' y = rank_sum k (Suc n) rs y (score_in ?sc1 y)"
    and ks: "map fst sc' = map fst ?sc1 @ filter (\<lambda>y. y \<notin> set (map fst ?sc1)) (fromkeys (map sid rs))"
    by blast
  have nz: "k + int n + 1 \<noteq> 0" using assms by simp
  have 1: "accumulate k n (r # rs) sc = Inr sc'"
    using a nz by (simp add: reciprocal_def)
  have 2: "\<forall>y. score_in sc' y = rank_sum k n (r # rs) y (score_in sc y)"
    using s by (auto simp: score_in_add_score rank_sum_Cons)
  have 3: "map fst sc' = map fst sc @ filter (\<lambda>y. y \<notin> set (map fst sc)) (fromkeys (map sid (r # rs)))"
  proof (cases "sid r \<in> set (map fst sc)")
    case True
    have "filter (\<lambda>y. y \<notin> set (map fst sc)) (filter (\<lambda>y. y \<noteq> sid r) (fromkeys (map sid rs)))
          = filter (\<lambda>y. y \<notin> set (map fst sc)) (fromkeys (map sid rs))"
      using True by (auto intro: filter_cong)
    then show ?thesis using ks True by (simp add: keys_add_score)
  next
    case False
    have "filter (\<lambda>y. y \<notin> set (map fst sc)) (filter (\<lambda>y. y \<noteq> sid r) (fromkeys (map sid rs)))
          = filter (\<lambda>y. y \<notin> set (map fst sc @ [sid r])) (fromkeys (map sid rs))"
      by (auto intro: filter_cong)
    then show ?thesis using ks False by (simp add: keys_add_score)
  qed
  show ?case using 1 2 3 by blast
qed

lemma insort_key_map:
  "insort_key f (h x) (map h xs) = map h (insort_key (\<lambda>a. f (h a)) x xs)"
  by (induction xs) auto

lemma sort_key_map: "sort_key f (map h xs) = map h (sort_key (\<lambda>a. f (h a)) xs)"
  by (induction xs) (auto simp: insort_key_map)

lemma rank_sum_absent: "x \<notin> sid ` set xs \<Longrightarrow> rank_sum k n xs x acc = acc"
  by (induction xs arbitrary: n) (auto simp: rank_sum_Nil rank_sum_Cons)

lemma rank_sum_distinct:
  "distinct (map sid xs) \<Longrightarrow> i < length xs \<Longrightarrow>
   rank_sum k n xs (sid (xs ! i)) acc = fadd acc (reciprocal k (n + i))"
proof (induction xs arbitrary: n i)
  case Nil
  then show ?case by simp
next
  case (Cons r rs)
  show ?case
  proof (cases i)
    case 0
    have "sid r \<notin> sid ` set rs" using Cons.prems(1) by auto
    then show ?thesis using 0 by (simp add: rank_sum_Cons rank_sum_absent)
  next
    case (Suc j)
    have j: "j < length rs" using Cons.prems(2) Suc by simp
    have "sid r \<noteq> sid (rs ! j)" using Cons.prems(1) j by auto
    moreover have "rank_sum k (Suc n) rs (sid (rs ! j)) acc = fadd acc (reciprocal k (Suc n + j))"
      using Cons.IH [of j "Suc n"] Cons.prems(1) j by simp
    ultimately show ?thesis using Suc by (simp add: rank_sum_Cons)
  qed
qed

lemma scores_eq:
  assumes "distinct (map fst sc)" and "\<forall>y. score_in sc y = S y"
  shows "sc = map (\<lambda>x. (x, S x)) (map fst sc)"
proof -
  have "\<And>p. p \<in> set sc \<Longrightarrow> snd p = S (fst p)"
  proof -
    fix p assume "p \<in> set sc"
    then have "map_of sc (fst p) = Some (snd p)" using assms(1) by simp
    then have "score_in sc (fst p) = snd p" by (simp add: score_in_def)
    then show "snd p = S (fst p)" using assms(2) by simp
  qed
  then have "map (\<lambda>p. (fst p, S (fst p))) sc = map (\<lambda>p. p) sc"
    by (intro map_cong) (auto simp: prod_eq_iff)
  then show ?thesis by (simp add: comp_def)
qed

lemma rrf_scores_eq:
  assumes "0 \<le> k"
  shows "rrf_scores vec lx k
           = Inr (map (\<lambda>x. (x, rrf_score k vec lx x)) (fromkeys (map sid (vec @ lx))))"
proof -
  obtain sc1 where a1: "accumulate k 0 vec [] = Inr sc1"
    and s1: "\<forall>y. score_in sc1 y = rank_sum k 0 vec y (score_in [] y)"
    and k1: "map fst sc1 = map fst ([]::scores) @ filter (\<lambda>y. y \<notin> set (map fst ([]::scores))) (fromkeys (map sid vec))"
    using accumulate_ok [OF assms, of 0 vec "[]"] by blast
  obtain sc2 where a2: "accumulate k 0 lx sc1 = Inr sc2"
    and s2: "\<forall>y. score_in sc2 y = rank_sum k 0 lx y (score_in sc1 y)"
    and k2: "map fst sc2 = map fst sc1 @ filter (\<lambda>y. y \<notin> set (map fst sc1)) (fromkeys (map sid lx))"
    using accumulate_ok [OF assms, of 0 lx sc1] by blast
  have keys: "map fst sc2 = fromkeys (map sid (vec @ lx))"
    using k1 k2 by (simp add: fromkeys_append set_fromkeys)
  have vals: "\<forall>y. score_in sc2 y = rrf_score k vec lx y"
    using s1 s2 by (simp add: rrf_score_def score_in_def)
  have "distinct (map fst sc2)" using keys by (simp add: distinct_fromkeys)
  then have "sc2 = map (\<lambda>x. (x, rrf_score k vec lx x)) (map fst sc2)"
    using vals by (rule scores_eq)
  then show ?thesis using a1 a2 keys by (simp add: rrf_scores_def)
qed

lemma rrf_fuse_eq:
  assumes "0 \<le> k" and "0 \<le> top_k"
  shows "rrf_fuse vec lx k top_k
           = Inr (take (nat top_k) (sort_key (\<lambda>x. - rrf_score k vec lx x)
                                     (fromkeys (map sid (vec @ lx)))))"
  using assms
  by (simp add: rrf_fuse_def rrf_scores_eq sorted_desc_def sort_key_map comp_def
      slice_to_def take_map)

lemma sorted_desc_ids:
  "sorted_wrt (\<lambda>a b. S b \<le> S a) (sort_key (\<lambda>x. - S x) (ids :: int list))"
  for S :: "int \<Rightarrow> rat"
proof -
  have "sorted (map (\<lambda>x. - S x) (sort_key (\<lambda>x. - S x) ids))"
    by (rule sorted_sort_key)
  then show ?thesis by (simp add: sorted_map)
qed

lemma stable_desc_ids:
  "filter (\<lambda>x. S x = c) (sort_key (\<lambda>x. - S x) ids) = filter (\<lambda>x. S x = c) ids"
  for S :: "int \<Rightarrow> rat"
  using sort_key_stable [of "\<lambda>x. - S x" "- c" ids] by simp

lemma abcd_order:
  "fdiv 1 (float_of_int 63) \<le> fadd (fdiv 1 (float_of_int 61)) (fdiv 1 (float_of_int 62))"
  "\<not> fadd (fdiv 1 (float_of_int 61)) (fdiv 1 (float_of_int 62)) \<le> fdiv 1 (float_of_int 63)"
  by code_simp+

lemma abcd_scores:
  assumes "distinct [A, B, C, D]"
  shows "rrf_scores [\<lparr>sid = A\<rparr>, \<lparr>sid = B\<rparr>, \<lparr>sid = C\<rparr>] [\<lparr>sid = B\<rparr>, \<lparr>sid = A\<rparr>, \<lparr>sid = D\<rparr>] 60
     = Inr [(A, fadd (fdiv 1 (float_of_int 61)) (fdiv 1 (float_of_int 62))),
            (B, fadd (fdiv 1 (float_of_int 62)) (fdiv 1 (float_of_int 61))),
            (C, fdiv 1 (float_of_int 63)), (D, fdiv 1 (float_of_int 63))]"
  using assms by (auto simp: rrf_scores_def fadd_zero)

lemma abcd_fuse:
  assumes "distinct [A, B, C, D]"
  shows "rrf_fuse [\<lparr>sid = A\<rparr>, \<lparr>sid = B\<rparr>, \<lparr>sid = C\<rparr>] [\<lparr>sid = B\<rparr>, \<lparr>sid = A\<rparr>, \<lparr>sid = D\<rparr>] 60 10
     = Inr [A, B, C, D]"
  using assms
  by (simp add: rrf_fuse_def abcd_scores sorted_desc_def slice_to_def
      fadd_commute [of "fdiv 1 (float_of_int 62)" "fdiv 1 (float_of_int 61)"] abcd_order)

text \<open>
  Claim C1, as the code has it. The scores are doubles. With \<open>k = 60\<close> and \<open>top_k = 10\<close>,
  as the retrieval tool calls it, the score the fusion gives an id is the double sum,
  taken in list order with the vector list first, of the doubles \<open>1.0 / (60 + rank + 1)\<close>
  for the 0-based positions \<open>rank\<close> that hold the id. In a list without repeated ids
  that is one term for a list containing the id and nothing for a list that does not
  contain it, so an id in one list only has the score of that list alone. The result is
  the first 10 of the ids ordered by descending double score, ids of equal double score
  staying in the order in which they were first seen (vector list first, then lexical
  list). For vector ranks \<open>[A, B, C]\<close> and lexical ranks \<open>[B, A, D]\<close> the scores of \<open>A\<close>
  and \<open>B\<close> are the double sums of \<open>1.0/61\<close> and \<open>1.0/62\<close> in the two orders, which are
  equal, those of \<open>C\<close> and \<open>D\<close> are the double \<open>1.0/63\<close>, and the result is
  \<open>[A, B, C, D]\<close>.
\<close>

theorem rrf_fuse_spec:
  "rrf_scores vec lx 60
     = Inr (map (\<lambda>x. (x, rrf_score 60 vec lx x)) (fromkeys (map sid (vec @ lx))))
   \<and> (\<exists>L. rrf_fuse vec lx 60 10 = Inr (take 10 L)
         \<and> mset L = mset (fromkeys (map sid (vec @ lx)))
         \<and> sorted_wrt (\<lambda>a b. rrf_score 60 vec lx b \<le> rrf_score 60 vec lx a) L
         \<and> (\<forall>c. filter (\<lambda>x. rrf_score 60 vec lx x = c) L
                = filter (\<lambda>x. rrf_score 60 vec lx x = c) (fromkeys (map sid (vec @ lx)))))
   \<and> (\<forall>i acc. i < length vec \<and> distinct (map sid vec)
          \<longrightarrow> rank_sum 60 0 vec (sid (vec ! i)) acc = fadd acc (reciprocal 60 i))
   \<and> (\<forall>i acc. i < length lx \<and> distinct (map sid lx)
          \<longrightarrow> rank_sum 60 0 lx (sid (lx ! i)) acc = fadd acc (reciprocal 60 i))
   \<and> (\<forall>i. reciprocal 60 i = fl (1 / fl (60 + of_nat i + 1)))
   \<and> (\<forall>x. x \<notin> sid ` set vec \<longrightarrow> rrf_score 60 vec lx x = rank_sum 60 0 lx x 0)
   \<and> (\<forall>x. x \<notin> sid ` set lx \<longrightarrow> rrf_score 60 vec lx x = rank_sum 60 0 vec x 0)
   \<and> (\<forall>A B C D. distinct [A, B, C, D] \<longrightarrow>
         rrf_scores [\<lparr>sid = A\<rparr>, \<lparr>sid = B\<rparr>, \<lparr>sid = C\<rparr>]
                    [\<lparr>sid = B\<rparr>, \<lparr>sid = A\<rparr>, \<lparr>sid = D\<rparr>] 60
           = Inr [(A, fadd (fdiv 1 (float_of_int 61)) (fdiv 1 (float_of_int 62))),
                  (B, fadd (fdiv 1 (float_of_int 62)) (fdiv 1 (float_of_int 61))),
                  (C, fdiv 1 (float_of_int 63)), (D, fdiv 1 (float_of_int 63))]
         \<and> fadd (fdiv 1 (float_of_int 61)) (fdiv 1 (float_of_int 62))
           = fadd (fdiv 1 (float_of_int 62)) (fdiv 1 (float_of_int 61))
         \<and> rrf_fuse [\<lparr>sid = A\<rparr>, \<lparr>sid = B\<rparr>, \<lparr>sid = C\<rparr>]
                    [\<lparr>sid = B\<rparr>, \<lparr>sid = A\<rparr>, \<lparr>sid = D\<rparr>] 60 10
           = Inr [A, B, C, D])"
proof -
  let ?S = "rrf_score 60 vec lx"
  let ?ids = "fromkeys (map sid (vec @ lx))"
  let ?L = "sort_key (\<lambda>x. - ?S x) ?ids"
  have 1: "rrf_scores vec lx 60 = Inr (map (\<lambda>x. (x, ?S x)) ?ids)"
    by (rule rrf_scores_eq) simp
  have "rrf_fuse vec lx 60 10 = Inr (take 10 ?L)"
    using rrf_fuse_eq [of 60 10 vec lx] by simp
  moreover have "mset ?L = mset ?ids" by simp
  moreover have "sorted_wrt (\<lambda>a b. ?S b \<le> ?S a) ?L" by (rule sorted_desc_ids)
  moreover have "\<forall>c. filter (\<lambda>x. ?S x = c) ?L = filter (\<lambda>x. ?S x = c) ?ids"
    by (simp add: stable_desc_ids)
  ultimately have 2: "\<exists>L. rrf_fuse vec lx 60 10 = Inr (take 10 L)
         \<and> mset L = mset ?ids \<and> sorted_wrt (\<lambda>a b. ?S b \<le> ?S a) L
         \<and> (\<forall>c. filter (\<lambda>x. ?S x = c) L = filter (\<lambda>x. ?S x = c) ?ids)"
    by blast
  have 3: "\<forall>i acc. i < length vec \<and> distinct (map sid vec)
          \<longrightarrow> rank_sum 60 0 vec (sid (vec ! i)) acc = fadd acc (reciprocal 60 i)"
    using rank_sum_distinct [of vec _ 60 0] by simp
  have 4: "\<forall>i acc. i < length lx \<and> distinct (map sid lx)
          \<longrightarrow> rank_sum 60 0 lx (sid (lx ! i)) acc = fadd acc (reciprocal 60 i)"
    using rank_sum_distinct [of lx _ 60 0] by simp
  have 5: "\<forall>i. reciprocal 60 i = fl (1 / fl (60 + of_nat i + 1))"
    by (simp add: reciprocal_def fdiv_def float_of_int_def)
  have 6: "\<forall>x. x \<notin> sid ` set vec \<longrightarrow> ?S x = rank_sum 60 0 lx x 0"
    by (simp add: rrf_score_def rank_sum_absent)
  have 7: "\<forall>x. x \<notin> sid ` set lx \<longrightarrow> ?S x = rank_sum 60 0 vec x 0"
    by (simp add: rrf_score_def rank_sum_absent)
  have 8: "\<forall>A B C D. distinct [A, B, C, D] \<longrightarrow>
         rrf_scores [\<lparr>sid = A\<rparr>, \<lparr>sid = B\<rparr>, \<lparr>sid = C\<rparr>]
                    [\<lparr>sid = B\<rparr>, \<lparr>sid = A\<rparr>, \<lparr>sid = D\<rparr>] 60
           = Inr [(A, fadd (fdiv 1 (float_of_int 61)) (fdiv 1 (float_of_int 62))),
                  (B, fadd (fdiv 1 (float_of_int 62)) (fdiv 1 (float_of_int 61))),
                  (C, fdiv 1 (float_of_int 63)), (D, fdiv 1 (float_of_int 63))]
         \<and> fadd (fdiv 1 (float_of_int 61)) (fdiv 1 (float_of_int 62))
           = fadd (fdiv 1 (float_of_int 62)) (fdiv 1 (float_of_int 61))
         \<and> rrf_fuse [\<lparr>sid = A\<rparr>, \<lparr>sid = B\<rparr>, \<lparr>sid = C\<rparr>]
                    [\<lparr>sid = B\<rparr>, \<lparr>sid = A\<rparr>, \<lparr>sid = D\<rparr>] 60 10
           = Inr [A, B, C, D]"
    using abcd_scores abcd_fuse
      fadd_commute [of "fdiv 1 (float_of_int 61)" "fdiv 1 (float_of_int 62)"]
    by blast
  show ?thesis
    by (rule conjI [OF 1 conjI [OF 2 conjI [OF 3 conjI [OF 4 conjI [OF 5 conjI [OF 6 conjI [OF 7 8]]]]]]])
qed

theorem rrf_fuse_spec_witness:
  "rrf_fuse [\<lparr>sid = 1\<rparr>, \<lparr>sid = 2\<rparr>, \<lparr>sid = 3\<rparr>] [\<lparr>sid = 2\<rparr>, \<lparr>sid = 1\<rparr>, \<lparr>sid = 4\<rparr>] 60 10
     = Inr [1, 2, 3, 4]
   \<and> rank_sum 60 0 [\<lparr>sid = 1\<rparr>, \<lparr>sid = 2\<rparr>, \<lparr>sid = 3\<rparr>] 2 0
       = 1162219258676257 / 72057594037927936
   \<and> rrf_score 60 [\<lparr>sid = 1\<rparr>, \<lparr>sid = 2\<rparr>, \<lparr>sid = 3\<rparr>] [\<lparr>sid = 2\<rparr>, \<lparr>sid = 1\<rparr>, \<lparr>sid = 4\<rparr>] 4
       = 285942833483841 / 18014398509481984"
proof -
  note spec = rrf_fuse_spec [of "[\<lparr>sid = 1\<rparr>, \<lparr>sid = 2\<rparr>, \<lparr>sid = 3\<rparr>]"
                                "[\<lparr>sid = 2\<rparr>, \<lparr>sid = 1\<rparr>, \<lparr>sid = 4\<rparr>]"]
  have r1: "reciprocal 60 (Suc 0) = 1162219258676257 / 72057594037927936" by code_simp
  have r2: "reciprocal 60 2 = 285942833483841 / 18014398509481984" by code_simp
  have d: "distinct [1, 2, 3, 4 :: int]" by simp
  have a: "rrf_fuse [\<lparr>sid = 1\<rparr>, \<lparr>sid = 2\<rparr>, \<lparr>sid = 3\<rparr>] [\<lparr>sid = 2\<rparr>, \<lparr>sid = 1\<rparr>, \<lparr>sid = 4\<rparr>] 60 10
            = Inr [1, 2, 3, 4]"
    using spec d by blast
  have "(1::nat) < length [\<lparr>sid = 1\<rparr>, \<lparr>sid = 2\<rparr>, \<lparr>sid = 3\<rparr>]
        \<and> distinct (map sid [\<lparr>sid = 1\<rparr>, \<lparr>sid = 2\<rparr>, \<lparr>sid = 3\<rparr>])" by simp
  then have "rank_sum 60 0 [\<lparr>sid = 1\<rparr>, \<lparr>sid = 2\<rparr>, \<lparr>sid = 3\<rparr>]
                (sid ([\<lparr>sid = 1\<rparr>, \<lparr>sid = 2\<rparr>, \<lparr>sid = 3\<rparr>] ! 1)) 0 = fadd 0 (reciprocal 60 1)"
    using spec by blast
  then have b: "rank_sum 60 0 [\<lparr>sid = 1\<rparr>, \<lparr>sid = 2\<rparr>, \<lparr>sid = 3\<rparr>] 2 0
                  = 1162219258676257 / 72057594037927936"
    by (simp add: fadd_zero r1)
  have "(4::int) \<notin> sid ` set [\<lparr>sid = 1\<rparr>, \<lparr>sid = 2\<rparr>, \<lparr>sid = 3\<rparr>]" by simp
  then have "rrf_score 60 [\<lparr>sid = 1\<rparr>, \<lparr>sid = 2\<rparr>, \<lparr>sid = 3\<rparr>] [\<lparr>sid = 2\<rparr>, \<lparr>sid = 1\<rparr>, \<lparr>sid = 4\<rparr>] 4
              = rank_sum 60 0 [\<lparr>sid = 2\<rparr>, \<lparr>sid = 1\<rparr>, \<lparr>sid = 4\<rparr>] 4 0"
    using spec by blast
  moreover have "rank_sum 60 0 [\<lparr>sid = 2\<rparr>, \<lparr>sid = 1\<rparr>, \<lparr>sid = 4\<rparr>] 4 0 = fadd 0 (reciprocal 60 2)"
    by (simp add: rank_sum_Cons rank_sum_Nil numeral_2_eq_2)
  ultimately have c: "rrf_score 60 [\<lparr>sid = 1\<rparr>, \<lparr>sid = 2\<rparr>, \<lparr>sid = 3\<rparr>] [\<lparr>sid = 2\<rparr>, \<lparr>sid = 1\<rparr>, \<lparr>sid = 4\<rparr>] 4
              = 285942833483841 / 18014398509481984"
    by (simp add: fadd_zero r2)
  show ?thesis using a b c by simp
qed

text \<open>
  The claim as stated takes the scores as exact sums. In the vector list of 39 results
  with id 2 at rank 27 and id 1 at rank 38, and the lexical list of 12 results with id 1
  at rank 5 and id 2 at rank 11, the exact sums of the two ids are equal,
  \<open>1/88 + 1/72 = 1/99 + 1/66\<close>, and id 2 is seen first; the doubles differ, and the
  fusion returns id 1 before id 2.
\<close>

theorem rrf_fuse_tie_counterexample:
  "rrf_fuse tie_vec tie_lex 60 10 = Inr [1, 2, 100, 200, 101, 201, 102, 202, 103, 203]
   \<and> sid (tie_vec ! 27) = 2 \<and> sid (tie_vec ! 38) = 1
   \<and> sid (tie_lex ! 5) = 1 \<and> sid (tie_lex ! 11) = 2
   \<and> 1 / (60 + 27 + 1) + 1 / (60 + 11 + 1) = (1 / (60 + 38 + 1) + 1 / (60 + 5 + 1) :: rat)"
proof -
  have a: "rrf_fuse tie_vec tie_lex 60 10 = Inr [1, 2, 100, 200, 101, 201, 102, 202, 103, 203]"
    by code_simp
  have b: "sid (tie_vec ! 27) = 2 \<and> sid (tie_vec ! 38) = 1
           \<and> sid (tie_lex ! 5) = 1 \<and> sid (tie_lex ! 11) = 2"
    by code_simp
  show ?thesis using a b by simp
qed

section \<open>The fallback cascade\<close>

lemma primary_fusion_total: "\<exists>fused. primary_fusion sv q = Inr fused"
  by (simp add: primary_fusion_def Let_def rrf_fuse_eq)

lemma cascade_nonempty:
  "fused \<noteq> [] \<Longrightarrow> cascade sv q fused = ([VectorSearch, LexicalSearch], fused)"
  by (simp add: cascade_def Let_def)

lemma fallback_calls:
  "set (fst (fallback1 sv a)) = {ExactLocatorQuery}"
  "fst (fallback2 sv q) = [SmartSemanticSearch] \<or> fst (fallback2 sv q) = [SmartSemanticSearch, ActExpansionQuery]"
  "fst (fallback3 sv q) = [ActTitleQuery]"
  by (simp_all add: fallback1_def fallback2_def fallback3_def Let_def)

lemma fromkeys_Nil_iff: "fromkeys xs = [] \<longleftrightarrow> xs = []"
  by (cases xs) simp_all

lemma cascade_calls:
  assumes "cascade sv q fused = (calls, ids)"
  shows "(ExactLocatorQuery \<in> set calls \<longrightarrow> fused = [])
       \<and> (SmartSemanticSearch \<in> set calls \<longrightarrow> fused = []
            \<and> (ExactLocatorQuery \<in> set calls
                  \<longrightarrow> snd (fallback1 sv (or_empty (extract_article_id sv q))) = []))
       \<and> (ActExpansionQuery \<in> set calls \<longrightarrow> SmartSemanticSearch \<in> set calls)
       \<and> (ActTitleQuery \<in> set calls \<longrightarrow> fused = []
            \<and> (ExactLocatorQuery \<in> set calls
                  \<longrightarrow> snd (fallback1 sv (or_empty (extract_article_id sv q))) = [])
            \<and> SmartSemanticSearch \<in> set calls \<and> snd (fallback2 sv q) = [])
       \<and> KgContextFetch \<notin> set calls \<and> LlmInvoke \<notin> set calls"
  using assms fallback_calls(2) [of sv q]
  by (auto simp: cascade_def Let_def fallback1_def fallback3_def fromkeys_Nil_iff split: if_splits)

text \<open>
  Claim C2. The tool always returns. When the primary fusion returns at least one
  section id, the reads the tool makes are the two searches, the context fetch and the
  model call: none of the three fallback tiers runs, whatever locator was detected.
  Fallback 1 (exact locator match) runs only if the fusion returned nothing; fallback 2
  (cross-type semantic search, with its act expansion) runs only if the fusion returned
  nothing and fallback 1, if it ran, found nothing; fallback 3 (act-title match) runs
  only if the fusion returned nothing, fallback 1, if it ran, found nothing, and
  fallback 2 ran and found nothing.
\<close>

theorem fallbacks_only_after_empty:
  "\<exists>fused calls out.
      primary_fusion sv q = Inr fused \<and> Graph_RAG_new_tool sv q = Inr (calls, out)
    \<and> (fused \<noteq> [] \<longrightarrow> calls = [VectorSearch, LexicalSearch, KgContextFetch, LlmInvoke])
    \<and> (ExactLocatorQuery \<in> set calls \<longrightarrow> fused = [])
    \<and> (SmartSemanticSearch \<in> set calls \<longrightarrow> fused = []
          \<and> (ExactLocatorQuery \<in> set calls
                \<longrightarrow> snd (fallback1 sv (or_empty (extract_article_id sv q))) = []))
    \<and> (ActExpansionQuery \<in> set calls \<longrightarrow> SmartSemanticSearch \<in> set calls)
    \<and> (ActTitleQuery \<in> set calls \<longrightarrow> fused = []
          \<and> (ExactLocatorQuery \<in> set calls
                \<longrightarrow> snd (fallback1 sv (or_empty (extract_article_id sv q))) = [])
          \<and> SmartSemanticSearch \<in> set calls \<and> snd (fallback2 sv q) = [])"
proof -
  let ?P = "\<lambda>calls fused.
      (ExactLocatorQuery \<in> set calls \<longrightarrow> fused = [])
    \<and> (SmartSemanticSearch \<in> set calls \<longrightarrow> fused = []
          \<and> (ExactLocatorQuery \<in> set calls
                \<longrightarrow> snd (fallback1 sv (or_empty (extract_article_id sv q))) = []))
    \<and> (ActExpansionQuery \<in> set calls \<longrightarrow> SmartSemanticSearch \<in> set calls)
    \<and> (ActTitleQuery \<in> set calls \<longrightarrow> fused = []
          \<and> (ExactLocatorQuery \<in> set calls
                \<longrightarrow> snd (fallback1 sv (or_empty (extract_article_id sv q))) = [])
          \<and> SmartSemanticSearch \<in> set calls \<and> snd (fallback2 sv q) = [])"
  obtain fused where f: "primary_fusion sv q = Inr fused"
    using primary_fusion_total by blast
  obtain calls ids where c: "cascade sv q fused = (calls, ids)"
    by (cases "cascade sv q fused")
  have cc: "?P calls fused"
    using cascade_calls [OF c] by simp
  have cc2: "?P (calls @ [KgContextFetch, LlmInvoke]) fused"
    using cc by simp
  show ?thesis
  proof (cases "ids = []")
    case True
    then have t: "Graph_RAG_new_tool sv q = Inr (calls, no_evidence)"
      using f c by (simp add: Graph_RAG_new_tool_def)
    have "fused = []" using True c cascade_nonempty [of fused sv q] by auto
    then have n0: "fused \<noteq> [] \<longrightarrow> calls = [VectorSearch, LexicalSearch, KgContextFetch, LlmInvoke]"
      by simp
    show ?thesis
      by (rule exI [of _ fused], rule exI [of _ calls], rule exI [of _ no_evidence],
          rule conjI [OF f conjI [OF t conjI [OF n0 cc]]])
  next
    case False
    let ?out = "llm_answer sv (fetch_kg_context_for_sections (kg_rows sv) ids) q"
    have t: "Graph_RAG_new_tool sv q = Inr (calls @ [KgContextFetch, LlmInvoke], ?out)"
      using f c False by (simp add: Graph_RAG_new_tool_def)
    have n: "fused \<noteq> [] \<longrightarrow> calls @ [KgContextFetch, LlmInvoke]
                 = [VectorSearch, LexicalSearch, KgContextFetch, LlmInvoke]"
      using c cascade_nonempty [of fused sv q] by auto
    show ?thesis
      by (rule exI [of _ fused], rule exI [of _ "calls @ [KgContextFetch, LlmInvoke]"],
          rule exI [of _ ?out], rule conjI [OF f conjI [OF t conjI [OF n cc2]]])
  qed
qed


theorem fallbacks_only_after_empty_witness:
  "Graph_RAG_new_tool hit_services ''penalty under Section 10''
     = Inr ([VectorSearch, LexicalSearch, KgContextFetch, LlmInvoke], ''answer'')
   \<and> truthy (extract_article_id hit_services ''penalty under Section 10'')
   \<and> Graph_RAG_new_tool title_services ''Sarais Act''
     = Inr ([VectorSearch, LexicalSearch, ExactLocatorQuery, SmartSemanticSearch,
             ActTitleQuery, KgContextFetch, LlmInvoke], ''answer'')
   \<and> primary_fusion title_services ''Sarais Act'' = Inr []
   \<and> snd (fallback2 title_services ''Sarais Act'') = []"
proof -
  have p1: "primary_fusion hit_services ''penalty under Section 10'' = Inr [5]"
    by (simp add: primary_fusion_def hit_services_def rrf_fuse_def rrf_scores_def
        sorted_desc_def slice_to_def)
  obtain fused calls out where
    f: "primary_fusion hit_services ''penalty under Section 10'' = Inr fused"
    and t: "Graph_RAG_new_tool hit_services ''penalty under Section 10'' = Inr (calls, out)"
    and n: "fused \<noteq> [] \<longrightarrow> calls = [VectorSearch, LexicalSearch, KgContextFetch, LlmInvoke]"
    using fallbacks_only_after_empty [of hit_services "''penalty under Section 10''"] by blast
  have "fused = [5]" using f p1 by simp
  then have c1: "calls = [VectorSearch, LexicalSearch, KgContextFetch, LlmInvoke]"
    using n by simp
  have "out = ''answer''"
    using t p1 by (simp add: Graph_RAG_new_tool_def cascade_def hit_services_def Let_def)
  then have a: "Graph_RAG_new_tool hit_services ''penalty under Section 10''
     = Inr ([VectorSearch, LexicalSearch, KgContextFetch, LlmInvoke], ''answer'')"
    using t c1 by simp
  have b: "truthy (extract_article_id hit_services ''penalty under Section 10'')"
    by (simp add: hit_services_def truthy_def)
  have p2: "primary_fusion title_services ''Sarais Act'' = Inr []"
    by (simp add: primary_fusion_def title_services_def rrf_fuse_def rrf_scores_def
        sorted_desc_def slice_to_def)
  have c: "Graph_RAG_new_tool title_services ''Sarais Act''
     = Inr ([VectorSearch, LexicalSearch, ExactLocatorQuery, SmartSemanticSearch,
             ActTitleQuery, KgContextFetch, LlmInvoke], ''answer'')"
    using p2 by (simp add: Graph_RAG_new_tool_def cascade_def title_services_def Let_def
        truthy_def fallback1_def fallback2_def fallback3_def)
  obtain fused' calls' out' where
    f': "primary_fusion title_services ''Sarais Act'' = Inr fused'"
    and t': "Graph_RAG_new_tool title_services ''Sarais Act'' = Inr (calls', out')"
    and n': "ActTitleQuery \<in> set calls' \<longrightarrow> fused' = []
          \<and> (ExactLocatorQuery \<in> set calls'
                \<longrightarrow> snd (fallback1 title_services
                           (or_empty (extract_article_id title_services ''Sarais Act''))) = [])
          \<and> SmartSemanticSearch \<in> set calls' \<and> snd (fallback2 title_services ''Sarais Act'') = []"
    using fallbacks_only_after_empty [of title_services "''Sarais Act''"] by blast
  have "calls' = [VectorSearch, LexicalSearch, ExactLocatorQuery, SmartSemanticSearch,
             ActTitleQuery, KgContextFetch, LlmInvoke]"
    using t' c by simp
  then have "ActTitleQuery \<in> set calls'" by simp
  then have d: "snd (fallback2 title_services ''Sarais Act'') = []" using n' by blast
  show ?thesis using a b c p2 d by simp
qed

section \<open>Severity scores\<close>

lemma fold_upd_keys:
  "fold (\<lambda>s m. m(s \<mapsto> f s)) ks m0 = (\<lambda>s. if s \<in> set ks then Some (f s) else m0 s)"
  by (induction ks arbitrary: m0) (auto simp: fun_eq_iff)

lemma severity_score_after:
  "g_severity_score (add_severity_scores g) s
     = (if pens_of g s = [] then g_severity_score g s else Some (severity_of g s))"
proof -
  have "s \<in> set (map fst (g_prescribes_penalty g)) \<longleftrightarrow> pens_of g s \<noteq> []"
    by (force simp: pens_of_def filter_empty_conv)
  then show ?thesis
    by (simp add: add_severity_scores_def fold_upd_keys set_fromkeys del: set_map)
qed

lemma pens_of_add: "pens_of (add_severity_scores g) = pens_of g"
  by (simp add: pens_of_def add_severity_scores_def fun_eq_iff)

lemma severity_of_add: "severity_of (add_severity_scores g) = severity_of g"
  by (simp add: severity_of_def fun_eq_iff pens_of_add) (simp add: add_severity_scores_def)

lemma add_severity_scores_idem:
  "add_severity_scores (add_severity_scores g) = add_severity_scores g"
proof -
  have "g_severity_score (add_severity_scores (add_severity_scores g))
          = g_severity_score (add_severity_scores g)"
    by (rule ext) (simp add: severity_score_after pens_of_add severity_of_add)
  then show ?thesis
    by (simp add: add_severity_scores_def)
qed

lemma add_severity_scores_funpow:
  "(add_severity_scores ^^ Suc n) g = add_severity_scores g"
  by (induction n) (simp_all add: add_severity_scores_idem)

text \<open>
  Claim C3. A penalty field is present when it is not null and not the empty string
  (the test of the query). For every section with at least one penalty, after the
  severity pass its \<open>severity_score\<close> is the sum over its penalties of 2 if imprisonment is
  present plus 1 if the fine amount is present, plus the number of its penalties. The
  pass sets the value: running it again, any number of times, leaves the same graph.
\<close>

theorem severity_score_spec:
  assumes "pens_of g s \<noteq> []"
  shows "g_severity_score (add_severity_scores g) s
           = Some (sum_list (map (\<lambda>p. (if present (p_imprisonment (g_penalty g p)) then 2 else 0)
                                      + (if present (p_fine_amount (g_penalty g p)) then 1 else 0))
                                 (pens_of g s))
                   + int (length (pens_of g s)))
       \<and> (add_severity_scores ^^ Suc n) g = add_severity_scores g
       \<and> g_severity_score ((add_severity_scores ^^ Suc n) g) s
           = g_severity_score (add_severity_scores g) s"
proof -
  have "g_severity_score (add_severity_scores g) s = Some (severity_of g s)"
    using assms by (simp add: severity_score_after)
  then have 1: "g_severity_score (add_severity_scores g) s
           = Some (sum_list (map (\<lambda>p. (if present (p_imprisonment (g_penalty g p)) then 2 else 0)
                                      + (if present (p_fine_amount (g_penalty g p)) then 1 else 0))
                                 (pens_of g s))
                   + int (length (pens_of g s)))"
    by (simp add: severity_of_def penalty_points_def)
  have 2: "(add_severity_scores ^^ Suc n) g = add_severity_scores g"
    by (rule add_severity_scores_funpow)
  show ?thesis using 1 2 by simp
qed

theorem severity_score_spec_witness:
  "g_severity_score (add_severity_scores penal_graph) 3 = Some 6
   \<and> g_severity_score (add_severity_scores (add_severity_scores penal_graph)) 3 = Some 6"
proof -
  have p: "pens_of penal_graph 3 = [10, 11]"
    by (simp add: pens_of_def penal_graph_def)
  then have ne: "pens_of penal_graph 3 \<noteq> []" by simp
  note spec = severity_score_spec [OF ne, of 1]
  have v: "sum_list (map (\<lambda>p. (if present (p_imprisonment (g_penalty penal_graph p)) then 2 else 0)
                                + (if present (p_fine_amount (g_penalty penal_graph p)) then 1 else 0))
                           [10, 11])
             + int (length [10, 11 :: nat]) = (6::int)"
    by (simp add: penal_graph_def present_def)
  have a: "g_severity_score (add_severity_scores penal_graph) 3 = Some 6"
    using spec v by (simp add: p)
  have "(add_severity_scores ^^ Suc 1) penal_graph
          = add_severity_scores (add_severity_scores penal_graph)"
    by simp
  then have "g_severity_score (add_severity_scores (add_severity_scores penal_graph)) 3
          = g_severity_score (add_severity_scores penal_graph) 3"
    using spec by simp
  then show ?thesis using a by simp
qed

section \<open>Role co-occurrence counts\<close>

lemma set_role_pairs:
  "set (role_pairs roles) = {(a, b). a \<in> set roles \<and> b \<in> set roles \<and> a < b}"
  by (auto simp: role_pairs_def)

lemma distinct_role_pairs: "distinct roles \<Longrightarrow> distinct (role_pairs roles)"
  by (simp add: role_pairs_def distinct_product)

lemma fold_merge_co_occurs:
  "distinct ps \<Longrightarrow>
   fold (\<lambda>p m. merge_co_occurs m p) ps m q
     = (if q \<in> set ps then Some (count_in m q + 1) else m q)"
  by (induction ps arbitrary: m) (auto simp: merge_co_occurs_def count_in_def split: option.splits)

lemma fold_sections:
  assumes "\<And>s. distinct (P s)"
  shows "fold (\<lambda>s m. fold (\<lambda>p m. merge_co_occurs m p) (P s) m) ss m q
     = (if length (filter (\<lambda>s. q \<in> set (P s)) ss) = 0 then m q
        else Some (count_in m q + int (length (filter (\<lambda>s. q \<in> set (P s)) ss))))"
proof (induction ss arbitrary: m)
  case Nil
  then show ?case by simp
next
  case (Cons s ss)
  let ?m1 = "fold (\<lambda>p m. merge_co_occurs m p) (P s) m"
  have m1: "?m1 q = (if q \<in> set (P s) then Some (count_in m q + 1) else m q)"
    using assms by (rule fold_merge_co_occurs)
  then have c1: "count_in ?m1 q = count_in m q + (if q \<in> set (P s) then 1 else 0)"
    by (simp add: count_in_def)
  show ?case
    using Cons.IH [of ?m1] m1 c1 by simp
qed


lemma set_roles_of: "set (roles_of g s) = {r. (s, r) \<in> set (g_mentions_role g)}"
  by (force simp: roles_of_def set_fromkeys)

lemma count_sections:
  "length (filter (\<lambda>s. q \<in> set (role_pairs (roles_of g s))) (fromkeys (map fst (g_mentions_role g))))
     = card {s. (s, fst q) \<in> set (g_mentions_role g) \<and> (s, snd q) \<in> set (g_mentions_role g)
                \<and> fst q < snd q}"
proof -
  let ?E = "set (g_mentions_role g)"
  have "{s. q \<in> set (role_pairs (roles_of g s))} \<inter> set (fromkeys (map fst (g_mentions_role g)))
          = {s. (s, fst q) \<in> ?E \<and> (s, snd q) \<in> ?E \<and> fst q < snd q}"
    by (cases q) (force simp: set_role_pairs set_roles_of set_fromkeys)
  then show ?thesis
    by (simp add: distinct_length_filter distinct_fromkeys)
qed

lemma co_occurs_after:
  "g_co_occurs (add_role_cooccurrence g) q
     = (let n = card {s. (s, fst q) \<in> set (g_mentions_role g) \<and> (s, snd q) \<in> set (g_mentions_role g)
                         \<and> fst q < snd q}
        in if n = 0 then g_co_occurs g q else Some (count_in (g_co_occurs g) q + int n))"
proof -
  have d: "\<And>s. distinct (role_pairs (roles_of g s))"
    by (simp add: distinct_role_pairs roles_of_def distinct_fromkeys)
  show ?thesis
    using fold_sections [of "\<lambda>s. role_pairs (roles_of g s)", OF d,
        of "fromkeys (map fst (g_mentions_role g))" "g_co_occurs g" q]
      count_sections [of q g]
    by (simp add: add_role_cooccurrence_def Let_def)
qed

lemma co_occurs_order:
  assumes "set (g_mentions_role g') = set (g_mentions_role g)" and "g_co_occurs g' = g_co_occurs g"
  shows "g_co_occurs (add_role_cooccurrence g') = g_co_occurs (add_role_cooccurrence g)"
  by (rule ext) (simp add: co_occurs_after assms Let_def)

lemma count_after:
  "r1 < r2 \<Longrightarrow>
   count_in (g_co_occurs (add_role_cooccurrence g)) (r1, r2)
     = count_in (g_co_occurs g) (r1, r2)
       + int (card {s. (s, r1) \<in> set (g_mentions_role g) \<and> (s, r2) \<in> set (g_mentions_role g)})"
  by (simp add: count_in_def co_occurs_after Let_def)

lemma mentions_role_after:
  "g_mentions_role (add_role_cooccurrence g) = g_mentions_role g"
  by (simp add: add_role_cooccurrence_def)

text \<open>
  Claim C6, as the code has it. For roles \<open>r1\<close>, \<open>r2\<close> with \<open>id(r1) < id(r2)\<close> that are
  co-mentioned in \<open>N\<close> distinct sections, one run of the co-occurrence pass adds \<open>N\<close> to
  the count between them (a missing edge counts as 0), in whatever order the store
  yields the sections. So on a graph without \<open>CO_OCCURS_WITH\<close> edges the count is \<open>N\<close>
  after the first run. The count is a running total: a second run on the unchanged
  graph adds \<open>N\<close> again and gives \<open>2 * N\<close>.
\<close>

theorem co_occurs_count_adds:
  "(r1 < r2 \<longrightarrow>
      count_in (g_co_occurs (add_role_cooccurrence g)) (r1, r2)
        = count_in (g_co_occurs g) (r1, r2)
          + int (card {s. (s, r1) \<in> set (g_mentions_role g) \<and> (s, r2) \<in> set (g_mentions_role g)}))
   \<and> (mset (g_mentions_role g') = mset (g_mentions_role g) \<and> g_co_occurs g' = g_co_occurs g
        \<longrightarrow> g_co_occurs (add_role_cooccurrence g') = g_co_occurs (add_role_cooccurrence g))
   \<and> (r1 < r2 \<and> g_co_occurs g = Map.empty \<longrightarrow>
        count_in (g_co_occurs (add_role_cooccurrence g)) (r1, r2)
          = int (card {s. (s, r1) \<in> set (g_mentions_role g) \<and> (s, r2) \<in> set (g_mentions_role g)})
        \<and> count_in (g_co_occurs (add_role_cooccurrence (add_role_cooccurrence g))) (r1, r2)
          = 2 * int (card {s. (s, r1) \<in> set (g_mentions_role g) \<and> (s, r2) \<in> set (g_mentions_role g)}))"
proof -
  let ?N = "int (card {s. (s, r1) \<in> set (g_mentions_role g) \<and> (s, r2) \<in> set (g_mentions_role g)})"
  have 1: "r1 < r2 \<longrightarrow>
      count_in (g_co_occurs (add_role_cooccurrence g)) (r1, r2)
        = count_in (g_co_occurs g) (r1, r2) + ?N"
    by (simp add: count_after)
  have 2: "mset (g_mentions_role g') = mset (g_mentions_role g) \<and> g_co_occurs g' = g_co_occurs g
        \<longrightarrow> g_co_occurs (add_role_cooccurrence g') = g_co_occurs (add_role_cooccurrence g)"
    using co_occurs_order [of g' g] mset_eq_setD [of "g_mentions_role g'" "g_mentions_role g"]
    by blast
  have 3: "r1 < r2 \<and> g_co_occurs g = Map.empty \<longrightarrow>
        count_in (g_co_occurs (add_role_cooccurrence g)) (r1, r2) = ?N
        \<and> count_in (g_co_occurs (add_role_cooccurrence (add_role_cooccurrence g))) (r1, r2)
          = 2 * ?N"
  proof
    assume h: "r1 < r2 \<and> g_co_occurs g = Map.empty"
    then have a: "count_in (g_co_occurs (add_role_cooccurrence g)) (r1, r2) = ?N"
      using count_after [of r1 r2 g] by (simp add: count_in_def)
    have "count_in (g_co_occurs (add_role_cooccurrence (add_role_cooccurrence g))) (r1, r2)
            = count_in (g_co_occurs (add_role_cooccurrence g)) (r1, r2) + ?N"
      using h count_after [of r1 r2 "add_role_cooccurrence g"]
      by (simp add: mentions_role_after)
    then show "count_in (g_co_occurs (add_role_cooccurrence g)) (r1, r2) = ?N
        \<and> count_in (g_co_occurs (add_role_cooccurrence (add_role_cooccurrence g))) (r1, r2)
          = 2 * ?N"
      using a by simp
  qed
  show ?thesis using 1 2 3 by blast
qed

theorem co_occurs_count_adds_witness:
  "count_in (g_co_occurs (add_role_cooccurrence two_role_graph)) (3, 4) = 1
   \<and> count_in (g_co_occurs (add_role_cooccurrence (add_role_cooccurrence two_role_graph))) (3, 4) = 2
   \<and> g_co_occurs (add_role_cooccurrence (two_role_graph\<lparr>g_mentions_role := [(7, 4), (7, 3)]\<rparr>))
       = g_co_occurs (add_role_cooccurrence two_role_graph)"
proof -
  have n: "{s. (s, 3) \<in> set (g_mentions_role two_role_graph)
              \<and> (s, 4) \<in> set (g_mentions_role two_role_graph)} = {7}"
    by (auto simp: two_role_graph_def)
  have e: "g_co_occurs two_role_graph = Map.empty"
    by (simp add: two_role_graph_def)
  have lt: "(3::nat) < 4" by simp
  have m: "mset (g_mentions_role (two_role_graph\<lparr>g_mentions_role := [(7, 4), (7, 3)]\<rparr>))
             = mset (g_mentions_role two_role_graph)
           \<and> g_co_occurs (two_role_graph\<lparr>g_mentions_role := [(7, 4), (7, 3)]\<rparr>)
             = g_co_occurs two_role_graph"
    by (simp add: two_role_graph_def)
  note spec = co_occurs_count_adds
    [of 3 4 two_role_graph "two_role_graph\<lparr>g_mentions_role := [(7, 4), (7, 3)]\<rparr>"]
  have a: "count_in (g_co_occurs (add_role_cooccurrence two_role_graph)) (3, 4) = 1
         \<and> count_in (g_co_occurs (add_role_cooccurrence (add_role_cooccurrence two_role_graph))) (3, 4) = 2"
    using spec lt e by (simp add: n)
  have b: "g_co_occurs (add_role_cooccurrence (two_role_graph\<lparr>g_mentions_role := [(7, 4), (7, 3)]\<rparr>))
       = g_co_occurs (add_role_cooccurrence two_role_graph)"
    using spec m by blast
  show ?thesis using a b by simp
qed

text \<open>
  The claim as stated says that a second run leaves the count at \<open>N\<close>. On the graph in
  which section 7 is the only section and mentions roles 3 and 4, the two roles are
  co-mentioned in one section; the count is 1 after the first run and 2 after the second.
\<close>

theorem co_occurs_rerun_counterexample:
  "g_mentions_role two_role_graph = [(7, 3), (7, 4)]
   \<and> g_co_occurs two_role_graph (3, 4) = None
   \<and> g_co_occurs (add_role_cooccurrence two_role_graph) (3, 4) = Some 1
   \<and> g_co_occurs (add_role_cooccurrence (add_role_cooccurrence two_role_graph)) (3, 4) = Some 2"
proof -
  have r: "role_pairs (roles_of two_role_graph 7) = [(3, 4)]"
    by (simp add: roles_of_def role_pairs_def two_role_graph_def)
  have r': "role_pairs (roles_of (add_role_cooccurrence two_role_graph) 7) = [(3, 4)]"
    by (simp add: roles_of_def role_pairs_def two_role_graph_def add_role_cooccurrence_def)
  have one: "g_co_occurs (add_role_cooccurrence two_role_graph) = [(3, 4) \<mapsto> 1]"
    using r by (simp add: add_role_cooccurrence_def merge_co_occurs_def)
       (simp add: two_role_graph_def)
  have two: "g_co_occurs (add_role_cooccurrence (add_role_cooccurrence two_role_graph)) (3, 4) = Some 2"
    using r' one by (simp add: add_role_cooccurrence_def [of "add_role_cooccurrence two_role_graph"]
        merge_co_occurs_def) (simp add: add_role_cooccurrence_def two_role_graph_def)
  show ?thesis using one two by (simp add: two_role_graph_def)
qed

section \<open>Merging extracted roles\<close>

lemma merged_roles_set:
  "set (merged_roles existing rs) = set existing \<union> {strip r | r. JStr r \<in> set rs}"
proof -
  have "\<And>x. set (new_role x) = {strip r | r. x = JStr r}"
    by (case_tac x) auto
  then show ?thesis by (auto simp: merged_roles_def)
qed

lemma merged_roles_sorted:
  "sorted (merged_roles existing rs) \<and> distinct (merged_roles existing rs)"
  by (simp add: merged_roles_def)

lemma appended_arr: "appended ex (JArr xs) = Inr (or_nil ex @ filter is_dict xs)"
  by (simp add: appended_def or_list_def)

lemma distinct_singleton_set: "distinct xs \<Longrightarrow> set xs = {x} \<Longrightarrow> xs = [x]"
proof (cases xs)
  case Nil
  assume "set xs = {x}"
  then show ?thesis using Nil by simp
next
  case (Cons y ys)
  assume d: "distinct xs" and s: "set xs = {x}"
  have y: "y = x" using s Cons by auto
  have "set ys \<subseteq> {x}" using s Cons by auto
  moreover have "x \<notin> set ys" using d Cons y by simp
  ultimately have "ys = []" by (cases ys) auto
  then show ?thesis using Cons y by simp
qed

lemma merge_semantics_roles:
  assumes "lr_roles res = JArr rs" and "lr_obligations res = JArr os"
    and "lr_powers res = JArr ps" and "lr_penalties res = JArr pens"
    and "lr_rights res = JArr rts"
  shows "\<exists>sec'. merge_semantics sec res = Inr sec'
           \<and> sec_roles sec' = Some (merged_roles (or_nil (sec_roles sec)) rs)"
  using assms by (simp add: merge_semantics_def appended_arr or_list_def Let_def)

text \<open>
  A result whose \<open>roles\<close> entry is a number is not iterable: the merge raises on it.
\<close>

lemma merge_semantics_number_roles:
  "merge_semantics sec \<lparr> lr_roles = JNum 5, lr_obligations = JArr [], lr_powers = JArr [],
                           lr_penalties = JArr [], lr_rights = JArr [] \<rparr> = Inl TypeError"
  by (simp add: merge_semantics_def or_list_def)

text \<open>
  Claim C4, as the code has it. For an extraction result whose five entries are lists,
  the merge returns, and the merged role list is the set union of the section's role
  names and the stripped role names of the result that are strings, compared as exact
  strings, in ascending order without repetition. If the section's role list already
  contains a stripped name exactly, the merged list gains no entry for it.
\<close>

theorem merge_roles_exact_union:
  assumes "lr_roles res = JArr rs" and "lr_obligations res = JArr os"
    and "lr_powers res = JArr ps" and "lr_penalties res = JArr pens"
    and "lr_rights res = JArr rts"
  shows "\<exists>sec' roles'. merge_semantics sec res = Inr sec' \<and> sec_roles sec' = Some roles'
           \<and> set roles' = set (or_nil (sec_roles sec)) \<union> {strip r | r. JStr r \<in> set rs}
           \<and> sorted roles' \<and> distinct roles'
           \<and> ((\<forall>r. JStr r \<in> set rs \<longrightarrow> strip r \<in> set (or_nil (sec_roles sec)))
                \<longrightarrow> set roles' = set (or_nil (sec_roles sec)))"
proof -
  let ?roles = "merged_roles (or_nil (sec_roles sec)) rs"
  obtain sec' where m: "merge_semantics sec res = Inr sec'" and r: "sec_roles sec' = Some ?roles"
    using merge_semantics_roles [OF assms] by blast
  have s: "set ?roles = set (or_nil (sec_roles sec)) \<union> {strip r | r. JStr r \<in> set rs}"
    by (rule merged_roles_set)
  have "(\<forall>r. JStr r \<in> set rs \<longrightarrow> strip r \<in> set (or_nil (sec_roles sec)))
          \<longrightarrow> set ?roles = set (or_nil (sec_roles sec))"
    using s by auto
  then show ?thesis
    using m r s merged_roles_sorted [of "or_nil (sec_roles sec)" rs] by blast
qed

theorem merge_roles_exact_union_witness:
  "\<exists>sec'. merge_semantics dm_section dm_result_padded = Inr sec'
          \<and> sec_roles sec' = Some [''District Magistrate'']"
proof -
  have st: "strip '' District Magistrate '' = ''District Magistrate''"
    by (simp add: strip_def is_space_def)
  obtain sec' roles' where m: "merge_semantics dm_section dm_result_padded = Inr sec'"
    and r: "sec_roles sec' = Some roles'"
    and d: "sorted roles' \<and> distinct roles'"
    and s: "(\<forall>r. JStr r \<in> set [JStr '' District Magistrate '']
                 \<longrightarrow> strip r \<in> set (or_nil (sec_roles dm_section)))
            \<longrightarrow> set roles' = set (or_nil (sec_roles dm_section))"
    using merge_roles_exact_union [of dm_result_padded "[JStr '' District Magistrate '']"
        "[]" "[]" "[]" "[]" dm_section]
    by (auto simp: dm_result_padded_def)
  have "set roles' = {''District Magistrate''}"
    using s st by (simp add: dm_section_def or_nil_def)
  then have "roles' = [''District Magistrate'']"
    using d by (simp add: distinct_singleton_set)
  then show ?thesis using m r by simp
qed

text \<open>
  The claim as stated has names that differ only in letter case merged into one entry.
  The merge of the role \<open>"district magistrate"\<close> into a section that has the role
  \<open>"District Magistrate"\<close> keeps both.
\<close>

theorem merge_roles_case_counterexample:
  "merge_semantics dm_section dm_result_lower
     = Inr \<lparr> sec_roles = Some [''District Magistrate'', ''district magistrate''],
             sec_obligations = Some [], sec_powers = Some [], sec_penalties = Some [],
             sec_rights = Some [],
             sec_processing_meta = Some \<lparr> pm_rule_based_flags = [], pm_llm_used = Some True,
                                           pm_llm_model = Some ''deepseek/deepseek-chat'' \<rparr> \<rparr>"
proof -
  have st: "strip ''district magistrate'' = ''district magistrate''"
    by (simp add: strip_def is_space_def)
  show ?thesis
    by (simp add: merge_semantics_def dm_section_def dm_result_lower_def or_list_def
        appended_def or_nil_def merged_roles_def st MODEL_def)
qed

section \<open>The batched extraction call\<close>

lemma item_entries_Cons:
  "item_entries (item # rest)
     = (case item_index item of
          None \<Rightarrow> []
        | Some idx \<Rightarrow> (case dict_key idx of None \<Rightarrow> [] | Some k \<Rightarrow> [(k, item_result item)]))
       @ item_entries rest"
  by (simp add: item_entries_def)

lemma collect_items_eq:
  "collect_items items out
     = (if \<exists>item \<in> set items. unhashable_index item then Inl TypeError
        else Inr (out ++ map_of (rev (item_entries items))))"
proof (induction items arbitrary: out)
  case Nil
  then show ?case by (simp add: item_entries_def)
next
  case (Cons item rest)
  show ?case
  proof (cases "item_index item")
    case None
    have nb: "\<not> unhashable_index item" using None by (simp add: unhashable_index_def)
    have "collect_items (item # rest) out = collect_items rest out" using None by simp
    moreover have "item_entries (item # rest) = item_entries rest"
      using None by (simp add: item_entries_Cons)
    ultimately show ?thesis using Cons.IH [of out] nb by simp
  next
    case (Some idx)
    note idx = Some
    show ?thesis
    proof (cases "dict_key idx")
      case None
      then have "unhashable_index item" using idx by (simp add: unhashable_index_def)
      moreover have "collect_items (item # rest) out = Inl TypeError"
        using None idx by simp
      ultimately show ?thesis by simp
    next
      case (Some k)
      have nb: "\<not> unhashable_index item" using Some idx by (simp add: unhashable_index_def)
      have step: "collect_items (item # rest) out
                    = collect_items rest (out(k \<mapsto> item_result item))"
        using Some idx by simp
      have ent: "item_entries (item # rest) = (k, item_result item) # item_entries rest"
        using Some idx by (simp add: item_entries_Cons)
      have m: "out(k \<mapsto> item_result item) ++ map_of (rev (item_entries rest))
            = out ++ map_of (rev ((k, item_result item) # item_entries rest))"
        by (simp add: fun_eq_iff map_add_def split: option.splits)
      show ?thesis
        unfolding step ent Cons.IH [of "out(k \<mapsto> item_result item)"] m
        using nb by simp
    qed
  qed
qed

lemma call_empty_batch: "call_llm_batch llm loads [] = Map.empty"
  by (simp add: call_llm_batch_def)

lemma call_raised:
  "llm (sections_block batch) = Raised \<Longrightarrow> call_llm_batch llm loads batch = Map.empty"
  by (simp add: call_llm_batch_def llm_batch_body_def)

lemma call_no_text:
  "llm (sections_block batch) = Replied c \<Longrightarrow> c = CNone \<or> c = COther \<or> c = CStr [] \<Longrightarrow>
   call_llm_batch llm loads batch = Map.empty"
  by (auto simp: call_llm_batch_def llm_batch_body_def)

lemma call_unparseable:
  "llm (sections_block batch) = Replied (CStr t) \<Longrightarrow> loads t = None \<Longrightarrow>
   call_llm_batch llm loads batch = Map.empty"
  by (simp add: call_llm_batch_def llm_batch_body_def)

lemma call_parsed:
  assumes "batch \<noteq> []" and "llm (sections_block batch) = Replied (CStr t)" and "t \<noteq> []"
    and "loads t = Some parsed"
  shows "call_llm_batch llm loads batch
           = (if \<exists>item \<in> set (as_list parsed). unhashable_index item then Map.empty
              else map_of (rev (item_entries (as_list parsed))))"
  using assms by (simp add: call_llm_batch_def llm_batch_body_def collect_items_eq)

text \<open>
  Claim C5, as the code has it. The statement is about the call. The call returns a
  dict: an exception in its \<open>try\<close> block gives the empty dict. What a later stage does
  with the results is no part of it. The result is empty for the whole batch when
  the batch is empty, the service call raises, the content is missing, not a string or
  empty, the text does not parse, or some element carries a list or a dict as
  \<open>section_index\<close>. Otherwise a parsed value that is not an array is taken as the array
  of that one value, elements that are not objects or carry no \<open>section_index\<close> are
  skipped, and every other element gives the result stored under its \<open>section_index\<close>
  (the last one, when an index occurs twice). So a reply of another shape than one
  object per section can give results to some sections of the batch.
\<close>

theorem call_llm_batch_spec:
  "call_llm_batch llm loads [] = Map.empty
   \<and> (\<forall>e. llm_batch_body llm loads batch = Inl e \<longrightarrow> call_llm_batch llm loads batch = Map.empty)
   \<and> (llm (sections_block batch) = Raised \<longrightarrow> call_llm_batch llm loads batch = Map.empty)
   \<and> (llm (sections_block batch) = Replied CNone \<or> llm (sections_block batch) = Replied COther
        \<or> llm (sections_block batch) = Replied (CStr [])
        \<longrightarrow> call_llm_batch llm loads batch = Map.empty)
   \<and> (\<forall>t. llm (sections_block batch) = Replied (CStr t) \<and> loads t = None
          \<longrightarrow> call_llm_batch llm loads batch = Map.empty)
   \<and> (\<forall>t parsed. batch \<noteq> [] \<and> llm (sections_block batch) = Replied (CStr t) \<and> t \<noteq> []
          \<and> loads t = Some parsed
          \<longrightarrow> call_llm_batch llm loads batch
               = (if \<exists>item \<in> set (as_list parsed). unhashable_index item then Map.empty
                  else map_of (rev (item_entries (as_list parsed)))))
   \<and> (\<forall>xs. as_list (JArr xs) = xs)
   \<and> (\<forall>kvs. as_list (JObj kvs) = [JObj kvs])"
proof -
  have 1: "\<forall>e. llm_batch_body llm loads batch = Inl e
             \<longrightarrow> call_llm_batch llm loads batch = Map.empty"
    by (auto simp: call_llm_batch_def)
  have 2: "llm (sections_block batch) = Replied CNone \<or> llm (sections_block batch) = Replied COther
        \<or> llm (sections_block batch) = Replied (CStr [])
        \<longrightarrow> call_llm_batch llm loads batch = Map.empty"
    using call_no_text [of llm batch _ loads] by blast
  have 3: "\<forall>t parsed. batch \<noteq> [] \<and> llm (sections_block batch) = Replied (CStr t) \<and> t \<noteq> []
          \<and> loads t = Some parsed
          \<longrightarrow> call_llm_batch llm loads batch
               = (if \<exists>item \<in> set (as_list parsed). unhashable_index item then Map.empty
                  else map_of (rev (item_entries (as_list parsed))))"
    using call_parsed [of batch llm _ loads] by blast
  have 4: "(\<forall>xs. as_list (JArr xs) = xs) \<and> (\<forall>kvs. as_list (JObj kvs) = [JObj kvs])"
    by (simp add: as_list_def)
  show ?thesis
    using call_empty_batch [of llm loads] 1 call_raised [of llm batch loads] 2
      call_unparseable [of llm batch _ loads] 3 4
    by blast
qed

theorem call_llm_batch_spec_witness:
  "call_llm_batch array_llm array_loads two_batch
     = [JNum 1 \<mapsto> \<lparr> lr_roles = JArr [JStr ''keeper of a sarai''], lr_obligations = JArr [],
                     lr_powers = JArr [], lr_penalties = JArr [], lr_rights = JArr [] \<rparr>]"
proof -
  let ?parsed = "JArr [JObj [(''section_index'', JNum 1),
                             (''roles'', JArr [JStr ''keeper of a sarai''])],
                       JStr ''no result'']"
  have h: "two_batch \<noteq> [] \<and> array_llm (sections_block two_batch) = Replied (CStr array_text)
           \<and> array_text \<noteq> [] \<and> array_loads array_text = Some ?parsed"
    by (simp add: two_batch_def array_llm_def array_loads_def) (simp add: array_text_def)
  have i: "item_index (JStr ''no result'') = None
           \<and> item_index (JObj [(''section_index'', JNum 1),
                                (''roles'', JArr [JStr ''keeper of a sarai''])]) = Some (JNum 1)"
    by (simp add: item_index_def)
  have u: "\<not> (\<exists>item \<in> set (as_list ?parsed). unhashable_index item)"
    using i by (simp add: as_list_def unhashable_index_def)
  have e: "item_entries (as_list ?parsed)
             = [(JNum 1, \<lparr> lr_roles = JArr [JStr ''keeper of a sarai''], lr_obligations = JArr [],
                           lr_powers = JArr [], lr_penalties = JArr [], lr_rights = JArr [] \<rparr>)]"
    using i by (simp add: as_list_def item_entries_def item_result_def or_list_def)
  have "call_llm_batch array_llm array_loads two_batch
          = (if \<exists>item \<in> set (as_list ?parsed). unhashable_index item then Map.empty
             else map_of (rev (item_entries (as_list ?parsed))))"
    using call_llm_batch_spec [of array_llm array_loads two_batch] h by blast
  then have "call_llm_batch array_llm array_loads two_batch
          = map_of (rev (item_entries (as_list ?parsed)))"
    using u by simp
  then show ?thesis by (simp add: e)
qed

text \<open>
  The claim as stated gives an empty result for the whole batch to every reply that is
  not an array with one object per section. For the batch of sections 0 and 1, the
  reply that is the single object \<open>{"section_index": 0, "roles": ["Magistrate"]}\<close> is
  not an array and has no object for section 1; section 0 receives its result.
\<close>

theorem call_llm_batch_partial_counterexample:
  "call_llm_batch object_llm object_loads two_batch (JNum 0)
     = Some \<lparr> lr_roles = JArr [JStr ''Magistrate''], lr_obligations = JArr [],
              lr_powers = JArr [], lr_penalties = JArr [], lr_rights = JArr [] \<rparr>
   \<and> call_llm_batch object_llm object_loads two_batch (JNum 1) = None"
proof -
  have t: "object_text \<noteq> []" by (simp add: object_text_def)
  have i: "item_index (JObj [(''section_index'', JNum 0), (''roles'', JArr [JStr ''Magistrate''])])
             = Some (JNum 0)"
    by (simp add: item_index_def)
  show ?thesis
    using t i
    by (simp add: call_llm_batch_def llm_batch_body_def two_batch_def object_llm_def
        object_loads_def as_list_def item_result_def or_list_def)
qed

section \<open>The segmenter\<close>

lemma step_preamble:
  assumes "\<not> is_header_line rec" and "current_section st = None"
  shows "step row rec st
           = ([], st\<lparr>current_chapter := chapter_after (current_chapter st) [rec]\<rparr>)"
  using assms
  by (auto simp: step_def is_header_line_def chapter_after_def split: option.splits)

lemma chapter_after_Cons:
  "chapter_after c (rec # recs) = chapter_after (chapter_after c [rec]) recs"
  by (simp add: chapter_after_def)

lemma process_from_preamble:
  assumes "\<forall>l \<in> set pre. \<not> is_header_line l" and "current_section st = None"
  shows "process_from row st (pre @ rest)
           = process_from row (st\<lparr>current_chapter := chapter_after (current_chapter st) pre\<rparr>) rest"
  using assms
proof (induction pre arbitrary: st)
  case Nil
  then show ?case by (simp add: chapter_after_def)
next
  case (Cons rec pre)
  let ?st1 = "st\<lparr>current_chapter := chapter_after (current_chapter st) [rec]\<rparr>"
  have s: "step row rec st = ([], ?st1)"
    using Cons.prems by (simp add: step_preamble)
  have "process_from row st ((rec # pre) @ rest) = process_from row ?st1 (pre @ rest)"
    using s by simp
  also have "\<dots> = process_from row (?st1\<lparr>current_chapter := chapter_after (current_chapter ?st1) pre\<rparr>) rest"
    using Cons.prems by (intro Cons.IH) simp_all
  also have "\<dots> = process_from row (st\<lparr>current_chapter := chapter_after (current_chapter st) (rec # pre)\<rparr>) rest"
    by (simp add: chapter_after_Cons [of _ rec pre])
  finally show ?case .
qed

lemma chapter_after_none:
  "\<forall>l \<in> set pre. detect_chapter (l_text l) = None \<Longrightarrow> chapter_after c pre = c"
  by (induction pre arbitrary: c) (simp_all add: chapter_after_def)

lemma flush_emits:
  "r \<in> set (fst (flush_section row st)) \<Longrightarrow>
     current_section st = Some (sr_section r)
     \<and> sr_text r = join [CHR 0x0A] (map l_text (buffer st))
     \<and> strip (sr_text r) \<noteq> []"
  by (auto simp: flush_section_def Let_def split: option.splits if_splits)

lemma flush_at_most_one: "length (fst (flush_section row st)) \<le> 1"
  by (auto simp: flush_section_def Let_def split: option.splits)

lemma step_emits:
  "r \<in> set (fst (step row rec st)) \<Longrightarrow> r \<in> set (fst (flush_section row st))"
  by (auto simp: step_def split: option.splits prod.splits if_splits)

lemma process_from_nonblank:
  "r \<in> set (process_from row st lines) \<Longrightarrow> strip (sr_text r) \<noteq> []"
proof (induction lines arbitrary: st)
  case Nil
  then have "r \<in> set (fst (flush_section row st))" by simp
  then show ?case using flush_emits by blast
next
  case (Cons rec recs)
  obtain out st' where s: "step row rec st = (out, st')" by (cases "step row rec st")
  from Cons.prems s have "r \<in> set out \<or> r \<in> set (process_from row st' recs)" by simp
  then show ?case
  proof
    assume "r \<in> set out"
    then have "r \<in> set (fst (flush_section row st))"
      using s step_emits [of r row rec st] by simp
    then show ?thesis using flush_emits by blast
  next
    assume "r \<in> set (process_from row st' recs)"
    then show ?thesis by (rule Cons.IH)
  qed
qed

lemma no_headers_empty:
  assumes "\<forall>l \<in> set lines. \<not> is_header_line l"
  shows "process_act row lines = []"
proof -
  have "process_act row (lines @ []) 
          = process_from row (initial_state\<lparr>current_chapter := chapter_after (current_chapter initial_state) lines\<rparr>) []"
    unfolding process_act_def
    using assms by (intro process_from_preamble) (simp_all add: initial_state_def)
  then show ?thesis by (simp add: flush_section_def initial_state_def)
qed

lemma flush_emits_iff:
  "fst (flush_section row st) \<noteq> []
     \<longleftrightarrow> current_section st \<noteq> None \<and> strip (join [CHR 0x0A] (map l_text (buffer st))) \<noteq> []"
  by (auto simp: flush_section_def Let_def split: option.splits)

lemma detect_chapter_examples:
  "detect_chapter ''CHAPTER I'' = Some ''I''"
  "detect_chapter ''1. Short title'' = None"
  "detect_chapter ''This Act may be called the Sarais Act.'' = None"
  by (simp_all add: detect_chapter_def strip_prefix_def is_space_def is_roman_def)

lemma detect_section_header_examples:
  "detect_section_header ''1. Short title'' = Some (''1'', ''Short title'')"
  "detect_section_header ''This Act may be called the Sarais Act.'' = None"
  "detect_section_header ''CHAPTER I'' = None"
  by (simp_all add: detect_section_header_def section_pattern1_def section_pattern2_def
      strip_prefix_def match_num_def is_digit_def is_letter_def is_space_def rest_ok_def strip_def)

text \<open>
  Claim C8, as the code has it. A line that the scan takes for a section header is one
  that is not a chapter header and matches a section pattern. The lines before the first
  such line add nothing to the text, the pages or the raw lines of any emitted section:
  the output is that of the scan of the remaining lines, started with the chapter that
  the last chapter header among the skipped lines names. If there is no chapter header
  among them the output is that of the remaining lines alone. A flush emits the section
  in progress exactly when there is one and its joined buffer is not blank, so every
  emitted section has non-blank text. A document in which no section header is detected
  gives the empty output, of section count 0.
\<close>

theorem segmenter_spec:
  "((\<forall>l \<in> set pre. \<not> is_header_line l) \<longrightarrow>
       process_act row (pre @ rest)
         = process_from row (initial_state\<lparr>current_chapter := chapter_after None pre\<rparr>) rest)
   \<and> ((\<forall>l \<in> set pre. \<not> is_header_line l \<and> detect_chapter (l_text l) = None) \<longrightarrow>
       process_act row (pre @ rest) = process_act row rest)
   \<and> (fst (flush_section row st) \<noteq> []
        \<longleftrightarrow> current_section st \<noteq> None
            \<and> strip (join [CHR 0x0A] (map l_text (buffer st))) \<noteq> [])
   \<and> length (fst (flush_section row st)) \<le> 1
   \<and> (\<forall>r \<in> set (process_act row lines). strip (sr_text r) \<noteq> [])
   \<and> ((\<forall>l \<in> set lines. \<not> is_header_line l) \<longrightarrow>
       process_act row lines = [] \<and> length (process_act row lines) = 0)"
proof -
  have 1: "(\<forall>l \<in> set pre. \<not> is_header_line l) \<longrightarrow>
       process_act row (pre @ rest)
         = process_from row (initial_state\<lparr>current_chapter := chapter_after None pre\<rparr>) rest"
    using process_from_preamble [of pre initial_state row rest]
    by (simp add: process_act_def initial_state_def)
  have 2: "(\<forall>l \<in> set pre. \<not> is_header_line l \<and> detect_chapter (l_text l) = None) \<longrightarrow>
       process_act row (pre @ rest) = process_act row rest"
  proof
    assume h: "\<forall>l \<in> set pre. \<not> is_header_line l \<and> detect_chapter (l_text l) = None"
    then have "chapter_after None pre = None" by (simp add: chapter_after_none)
    moreover have "process_act row (pre @ rest)
         = process_from row (initial_state\<lparr>current_chapter := chapter_after None pre\<rparr>) rest"
      using 1 h by blast
    ultimately show "process_act row (pre @ rest) = process_act row rest"
      by (simp add: process_act_def initial_state_def)
  qed
  have 5: "\<forall>r \<in> set (process_act row lines). strip (sr_text r) \<noteq> []"
    using process_from_nonblank [of _ row initial_state lines] by (simp add: process_act_def)
  have 6: "(\<forall>l \<in> set lines. \<not> is_header_line l) \<longrightarrow>
       process_act row lines = [] \<and> length (process_act row lines) = 0"
    using no_headers_empty [of lines row] by simp
  show ?thesis
    using 1 2 flush_emits_iff [of row st] flush_at_most_one [of row st] 5 6 by blast
qed

theorem segmenter_spec_witness:
  "process_act sarais_row ([chapter_line] @ [header_line, body_line])
     = process_from sarais_row (initial_state\<lparr>current_chapter := Some ''I''\<rparr>)
         [header_line, body_line]
   \<and> process_act sarais_row ([body_line] @ [header_line, body_line])
     = process_act sarais_row [header_line, body_line]
   \<and> process_act sarais_row [chapter_line, body_line] = []"
proof -
  have c: "\<not> is_header_line chapter_line"
    by (simp add: is_header_line_def chapter_line_def detect_chapter_examples)
  have b: "\<not> is_header_line body_line \<and> detect_chapter (l_text body_line) = None"
    by (simp add: is_header_line_def body_line_def detect_chapter_examples
        detect_section_header_examples)
  have ch: "chapter_after None [chapter_line] = Some ''I''"
    by (simp add: chapter_after_def chapter_line_def detect_chapter_examples)
  have pc: "\<forall>l \<in> set [chapter_line]. \<not> is_header_line l" using c by simp
  have pb: "\<forall>l \<in> set [body_line]. \<not> is_header_line l \<and> detect_chapter (l_text l) = None"
    using b by simp
  have pn: "\<forall>l \<in> set [chapter_line, body_line]. \<not> is_header_line l" using c b by simp
  have "process_act sarais_row ([chapter_line] @ [header_line, body_line])
     = process_from sarais_row (initial_state\<lparr>current_chapter := chapter_after None [chapter_line]\<rparr>)
         [header_line, body_line]"
    using segmenter_spec [of "[chapter_line]" sarais_row "[header_line, body_line]"] pc
    by blast
  then have 1: "process_act sarais_row ([chapter_line] @ [header_line, body_line])
     = process_from sarais_row (initial_state\<lparr>current_chapter := Some ''I''\<rparr>)
         [header_line, body_line]"
    by (simp only: ch)
  have 2: "process_act sarais_row ([body_line] @ [header_line, body_line])
     = process_act sarais_row [header_line, body_line]"
    using segmenter_spec [of "[body_line]" sarais_row "[header_line, body_line]"] pb
    by blast
  have 3: "process_act sarais_row [chapter_line, body_line] = []"
    using segmenter_spec [of "[]" sarais_row "[]" initial_state "[chapter_line, body_line]"] pn
    by blast
  show ?thesis using 1 2 3 by blast
qed

text \<open>
  The claim as stated lets no line before the first section header contribute to an
  emitted section. The chapter header \<open>CHAPTER I\<close> stands before the first section
  header \<open>1. Short title\<close>; with it the emitted section has chapter \<open>I\<close>, without it the
  section has no chapter.
\<close>

theorem segmenter_chapter_counterexample:
  "process_act sarais_row [chapter_line, header_line, body_line]
     = [short_title_record (Some ''I'')]
   \<and> process_act sarais_row [header_line, body_line] = [short_title_record None]"
  by (simp add: process_act_def initial_state_def step_def flush_section_def
      chapter_line_def header_line_def body_line_def sarais_row_def short_title_record_def
      detect_chapter_examples detect_section_header_examples strip_def is_space_def Let_def)

end
